theory Spec2Isabelle
  imports Main "HOL-Library.Multiset"
begin

section \<open>Data of the dump\<close>

text \<open>
  \<^verbatim>\<open>lib/elasticReader.js\<close> handles the rows of a StackExchange dump as plain JavaScript
  objects (\<^verbatim>\<open>lineObject\<close>). A row is a record here; a field a row may lack
  (\<^verbatim>\<open>undefined\<close> in JavaScript) is an \<open>option\<close>. Identifiers are JavaScript numbers
  holding integers, so \<open>int\<close>. A JavaScript string is a list of code units; the model
  covers the strings whose code units are below 256, one \<open>char\<close> each.
\<close>

record post =
  post_Id :: int
  post_PostTypeId :: int
  post_ParentId :: "int option"
  post_Title :: "string option"
  post_Tags :: "string option"
  post_Body :: "string option"
  post_ViewCount :: "int option"
  post_OwnerUserId :: "int option"
  post_QuestionTitle :: "string option"
  post_VoteCount :: "int option"

record postlink =
  link_PostId :: int
  link_RelatedPostId :: int

text \<open>
  Votes are read with no file type (\<^verbatim>\<open>readFile(filePath, null, ...)\<close>), so both
  attributes of a vote are the raw strings of the dump: the source converts
  \<^verbatim>\<open>PostId\<close> with \<^verbatim>\<open>Number(...)\<close> and compares \<^verbatim>\<open>VoteTypeId\<close> with the strings
  \<^verbatim>\<open>'2'\<close> and \<^verbatim>\<open>'3'\<close>.
\<close>

record vote =
  vote_PostId :: string
  vote_VoteTypeId :: string

definition POSTTYPEID_QUESTION :: int where
  "POSTTYPEID_QUESTION = 1"

definition POSTTYPEID_ANSWER :: int where
  "POSTTYPEID_ANSWER = 2"

definition VOTETYPEID_UPMOD :: string where
  "VOTETYPEID_UPMOD = ''2''"

definition VOTETYPEID_DOWNMOD :: string where
  "VOTETYPEID_DOWNMOD = ''3''"

text \<open>A JavaScript \<^verbatim>\<open>Error\<close> with its message, and the JavaScript values a promise of
  this module resolves to.\<close>

datatype js_error = Error (message: string)

datatype jsval = Undefined | Num int | Array "jsval list"

section \<open>The record stream reader\<close>

text \<open>
  Modelled from the spec: \<^verbatim>\<open>readFile\<close> of \<^verbatim>\<open>lib/dataSources\<close> is not among the
  sources. The spec describes it as producing "a lazy, forward-only sequence of typed
  records from a dump file": the handler is called on every record, in stream order.
  The handlers below contain no \<^verbatim>\<open>await\<close>, so each call runs to its end before the next
  record is handed over. Progress reporting (\<^verbatim>\<open>onProgress\<close>) only prints and is left out.
\<close>

primrec readFile :: "('r \<Rightarrow> 's \<Rightarrow> 's) \<Rightarrow> 'r list \<Rightarrow> 's \<Rightarrow> 's" where
  "readFile handler [] st = st"
| "readFile handler (lineObject # rest) st = readFile handler rest (handler lineObject st)"

section \<open>The stemmed word matcher: \<^verbatim>\<open>makeDoesMatch\<close>\<close>

text \<open>
  \<^verbatim>\<open>String.prototype.toLowerCase\<close> on code units below 256: the letters A-Z and the
  Latin-1 capitals (192-222 but the multiplication sign 215) move up by 32.
\<close>

definition toLowerCase_char :: "char \<Rightarrow> char" where
  "toLowerCase_char c =
     (let n = (of_char c :: nat) in
      if (65 \<le> n \<and> n \<le> 90) \<or> (192 \<le> n \<and> n \<le> 222 \<and> n \<noteq> 215)
      then char_of (n + 32) else c)"

definition toLowerCase :: "string \<Rightarrow> string" where
  "toLowerCase text = map toLowerCase_char text"

text \<open>The characters the regular expression \<^verbatim>\<open>/[^a-z0-9-]/\<close> does not match.\<close>

definition is_word_char :: "char \<Rightarrow> bool" where
  "is_word_char c =
     (let n = (of_char c :: nat) in
      (97 \<le> n \<and> n \<le> 122) \<or> (48 \<le> n \<and> n \<le> 57) \<or> c = CHR ''-'')"

definition is_punctuation :: "char \<Rightarrow> bool" where
  "is_punctuation c = (\<not> is_word_char c)"

text \<open>
  \<^verbatim>\<open>String.prototype.split\<close> with a separator that matches exactly one code unit: \<open>n\<close>
  separators give \<open>n + 1\<close> pieces, empty ones included (\<^verbatim>\<open>''.split(' ')\<close> is
  \<^verbatim>\<open>['']\<close>, \<^verbatim>\<open>'a,,b'.split(',')\<close> is \<^verbatim>\<open>['a', '', 'b']\<close>).
\<close>

fun split_on :: "(char \<Rightarrow> bool) \<Rightarrow> string \<Rightarrow> string list" where
  "split_on sep [] = [[]]"
| "split_on sep (c # cs) =
     (if sep c then [] # split_on sep cs
      else (case split_on sep cs of [] \<Rightarrow> [[c]] | w # ws \<Rightarrow> (c # w) # ws))"

text \<open>
  \<^verbatim>\<open>stemmedWords\<close>, the inner function of \<^verbatim>\<open>makeDoesMatch\<close>. The Porter stemmer
  (\<^verbatim>\<open>porter-stemmer\<close>, a dependency) is a parameter: a function from words to words.
  The result is the JavaScript \<^verbatim>\<open>Set\<close>: the stemmed words, and for every stemmed word
  with a hyphen the stems of its parts.
\<close>

definition stemmedWords :: "(string \<Rightarrow> string) \<Rightarrow> string \<Rightarrow> string set" where
  "stemmedWords stemmer text =
     (let wordArray = map stemmer (split_on is_punctuation (toLowerCase text))
      in set (wordArray @
              concat (map (\<lambda>word. if CHR ''-'' \<in> set word
                                   then map stemmer (split_on (\<lambda>c. c = CHR ''-'') word)
                                   else [])
                          wordArray)))"

text \<open>\<^verbatim>\<open>x || ''\<close> on a field that is a string or missing.\<close>

definition or_empty :: "string option \<Rightarrow> string" where
  "or_empty x = (case x of None \<Rightarrow> [] | Some s \<Rightarrow> s)"

text \<open>\<^verbatim>\<open>words && words.has(word)\<close>: the word set is missing when its text was empty.\<close>

definition has_word :: "string set option \<Rightarrow> string \<Rightarrow> bool" where
  "has_word words word = (case words of None \<Rightarrow> False | Some ws \<Rightarrow> word \<in> ws)"

text \<open>
  The title the matcher reads (lines 137-142): the row's title, or for the exclusion
  matcher on a row with no title the start of its body.
\<close>

definition titleOf :: "bool \<Rightarrow> post \<Rightarrow> string" where
  "titleOf isAccept lineObject =
     (let title = or_empty (post_Title lineObject);
          textBody = or_empty (post_Body lineObject)
      in if \<not> isAccept \<and> title = [] \<and> textBody \<noteq> []
         then (if length textBody > 60 then take 60 textBody @ ''...'' else textBody)
         else title)"

text \<open>
  \<^verbatim>\<open>text && stemmedWords(html2plaintext(text))\<close>: no word set for an empty text.
  \<^verbatim>\<open>html2plaintext\<close> (a dependency) is a parameter that returns the plain text or
  throws.
\<close>

definition plainWords ::
  "(string \<Rightarrow> string) \<Rightarrow> (string \<Rightarrow> js_error + string) \<Rightarrow> string \<Rightarrow>
   js_error + string set option" where
  "plainWords stemmer html2plaintext text =
     (if text = [] then Inr None
      else (case html2plaintext text of
              Inl err \<Rightarrow> Inl err
            | Inr plain \<Rightarrow> Inr (Some (stemmedWords stemmer plain))))"

text \<open>\<^verbatim>\<open>lineObject.Tags && stemmedWords(lineObject.Tags)\<close>.\<close>

definition tagWordsOf :: "(string \<Rightarrow> string) \<Rightarrow> post \<Rightarrow> string set option" where
  "tagWordsOf stemmer lineObject =
     (if or_empty (post_Tags lineObject) = [] then None
      else Some (stemmedWords stemmer (or_empty (post_Tags lineObject))))"

text \<open>
  The body of the \<^verbatim>\<open>try\<close> block of the matcher (lines 135-154). A throw leaves the
  block at once, in the order the source evaluates: title, then tags (which cannot
  throw), then body.
\<close>

definition matchBody ::
  "(string \<Rightarrow> string) \<Rightarrow> (string \<Rightarrow> js_error + string) \<Rightarrow> string list \<Rightarrow> bool \<Rightarrow>
   post \<Rightarrow> js_error + bool" where
  "matchBody stemmer html2plaintext testWords isAccept lineObject =
     (case plainWords stemmer html2plaintext (titleOf isAccept lineObject) of
        Inl err \<Rightarrow> Inl err
      | Inr titleWords \<Rightarrow>
          (case (if isAccept then Inr None
                 else plainWords stemmer html2plaintext (or_empty (post_Body lineObject))) of
             Inl err \<Rightarrow> Inl err
           | Inr bodyWords \<Rightarrow>
               Inr (list_ex (\<lambda>word. has_word titleWords word \<or>
                                     has_word (tagWordsOf stemmer lineObject) word \<or>
                                     has_word bodyWords word)
                            testWords)))"

text \<open>
  \<^verbatim>\<open>makeDoesMatch(testString, isAccept)\<close>. An empty (or missing) \<^verbatim>\<open>testString\<close> is
  falsy and gives the constant matcher; otherwise the matcher runs the \<^verbatim>\<open>try\<close> block
  and its \<^verbatim>\<open>catch\<close> returns \<^verbatim>\<open>true\<close>. What \<^verbatim>\<open>console.error\<close> prints is not modelled.
\<close>

definition makeDoesMatch ::
  "(string \<Rightarrow> string) \<Rightarrow> (string \<Rightarrow> js_error + string) \<Rightarrow> string \<Rightarrow> bool \<Rightarrow>
   post \<Rightarrow> bool" where
  "makeDoesMatch stemmer html2plaintext testString isAccept =
     (if testString = [] then (\<lambda>lineObject. isAccept)
      else (let testSplit = split_on (\<lambda>c. c = CHR '' '') (toLowerCase testString);
                testWords = map stemmer testSplit
            in (\<lambda>lineObject.
                  case matchBody stemmer html2plaintext testWords isAccept lineObject of
                    Inl err \<Rightarrow> True
                  | Inr aHit \<Rightarrow> aHit)))"

section \<open>The post-set resolver: \<^verbatim>\<open>getAllPostIds\<close>\<close>

text \<open>
  The three \<^verbatim>\<open>Set\<close> objects of \<^verbatim>\<open>getAllPostIds\<close> are built separately from the same
  array and never alias; \<^verbatim>\<open>documentCount\<close> is the local counter the two passes share.
\<close>

record resolver_state =
  questionIds :: "int set"
  extendedQuestionIds :: "int set"
  postIds :: "int set"
  documentCount :: nat

text \<open>The handler of the PostLinks pass (lines 336-347).\<close>

definition linkHandler :: "postlink \<Rightarrow> resolver_state \<Rightarrow> resolver_state" where
  "linkHandler lineObject st =
     (let st1 = (if link_PostId lineObject \<in> questionIds st
                 then st\<lparr>documentCount := documentCount st + 1,
                         postIds := insert (link_RelatedPostId lineObject) (postIds st),
                         extendedQuestionIds :=
                           insert (link_RelatedPostId lineObject) (extendedQuestionIds st)\<rparr>
                 else st)
      in (if link_RelatedPostId lineObject \<in> questionIds st1
          then st1\<lparr>documentCount := documentCount st1 + 1,
                   postIds := insert (link_PostId lineObject) (postIds st1),
                   extendedQuestionIds :=
                     insert (link_PostId lineObject) (extendedQuestionIds st1)\<rparr>
          else st1))"

text \<open>\<^verbatim>\<open>extendedQuestionIds.has(lineObject.ParentId)\<close>: a missing \<^verbatim>\<open>ParentId\<close> is in no
  set of identifiers.\<close>

definition has_parent :: "int set \<Rightarrow> int option \<Rightarrow> bool" where
  "has_parent ids parent = (case parent of None \<Rightarrow> False | Some p \<Rightarrow> p \<in> ids)"

text \<open>The handler of the Posts pass (lines 364-380), for any exclude matcher.\<close>

definition postHandler :: "(post \<Rightarrow> bool) \<Rightarrow> post \<Rightarrow> resolver_state \<Rightarrow> resolver_state" where
  "postHandler shouldReject lineObject st =
     (let st1 = (if post_PostTypeId lineObject = POSTTYPEID_QUESTION \<and>
                    post_Id lineObject \<in> extendedQuestionIds st \<and>
                    shouldReject lineObject
                 then st\<lparr>extendedQuestionIds := extendedQuestionIds st - {post_Id lineObject},
                         postIds := postIds st - {post_Id lineObject}\<rparr>
                 else st)
      in (if post_PostTypeId lineObject = POSTTYPEID_ANSWER \<and>
             has_parent (extendedQuestionIds st1) (post_ParentId lineObject) \<and>
             \<not> shouldReject lineObject
          then st1\<lparr>postIds := insert (post_Id lineObject) (postIds st1),
                   documentCount := documentCount st1 + 1\<rparr>
          else st1))"

text \<open>The state before the first pass: three sets of the seed array.\<close>

definition initial_state :: "int list \<Rightarrow> resolver_state" where
  "initial_state postIdsArray =
     \<lparr>questionIds = set postIdsArray, extendedQuestionIds = set postIdsArray,
      postIds = set postIdsArray, documentCount = 0\<rparr>"

definition linkPass :: "postlink list \<Rightarrow> resolver_state \<Rightarrow> resolver_state" where
  "linkPass postLinks st = readFile linkHandler postLinks st"

definition postPass :: "(post \<Rightarrow> bool) \<Rightarrow> post list \<Rightarrow> resolver_state \<Rightarrow> resolver_state" where
  "postPass shouldReject posts st =
     readFile (postHandler shouldReject) posts (st\<lparr>documentCount := 0\<rparr>)"

text \<open>
  \<^verbatim>\<open>getAllPostIds\<close>. The inputs are the files as read: the \<^verbatim>\<open>postIds\<close> array of
  Questions.json, and the records of Posts.xml and PostLinks.xml (\<open>None\<close> when the file
  does not exist, which throws). \<^verbatim>\<open>tagsToExclude\<close> is the configured default
  (\<^verbatim>\<open>parameters.tagsToExclude\<close>), used when \<^verbatim>\<open>excludeTags\<close> is empty or missing. The
  result is the returned array \<^verbatim>\<open>[postIds, documentCount, extendedQuestionIds]\<close>.
\<close>

definition getAllPostIds ::
  "(string \<Rightarrow> string) \<Rightarrow> (string \<Rightarrow> js_error + string) \<Rightarrow> string \<Rightarrow>
   int list \<Rightarrow> post list option \<Rightarrow> postlink list option \<Rightarrow> string \<Rightarrow>
   js_error + (int set \<times> nat \<times> int set)" where
  "getAllPostIds stemmer html2plaintext tagsToExclude postIdsArray postsXml postLinksXml excludeTags =
     (case postsXml of
        None \<Rightarrow> Inl (Error ''Posts.xml must exist in same directory as Questions.json'')
      | Some posts \<Rightarrow>
          (case postLinksXml of
             None \<Rightarrow> Inl (Error ''PostLinks.xml must exist in same directory as Questions.json'')
           | Some postLinks \<Rightarrow>
               (let st1 = linkPass postLinks (initial_state postIdsArray);
                    shouldReject = makeDoesMatch stemmer html2plaintext
                                     (if excludeTags = [] then tagsToExclude else excludeTags) False;
                    st2 = postPass shouldReject posts st1
                in Inr (postIds st2, documentCount st2, extendedQuestionIds st2))))"

section \<open>The vote aggregator: \<^verbatim>\<open>totalVotes\<close>\<close>

text \<open>
  \<^verbatim>\<open>Number(lineObject.PostId)\<close> is a parameter \<open>js_Number\<close>: the integer a raw attribute
  denotes, or \<open>None\<close> for \<^verbatim>\<open>NaN\<close> and for every number that is not an integer, none of
  which is a member of a set of identifiers. \<^verbatim>\<open>voteTotals\<close> is the JavaScript \<^verbatim>\<open>Map\<close>.
\<close>

record vote_state =
  voteTotals :: "int \<rightharpoonup> int"
  votedCount :: nat

definition voteHandler ::
  "(string \<Rightarrow> int option) \<Rightarrow> int set \<Rightarrow> vote \<Rightarrow> vote_state \<Rightarrow> vote_state" where
  "voteHandler js_Number wanted lineObject st =
     (case js_Number (vote_PostId lineObject) of
        None \<Rightarrow> st
      | Some postIdNum \<Rightarrow>
          if postIdNum \<in> wanted
          then (let seen = voteTotals st postIdNum;
                    count0 = (case seen of None \<Rightarrow> 0 | Some c \<Rightarrow> c);
                    count1 = (if vote_VoteTypeId lineObject = VOTETYPEID_UPMOD then count0 + 1
                              else if vote_VoteTypeId lineObject = VOTETYPEID_DOWNMOD then count0 - 1
                              else count0)
                in \<lparr>voteTotals = (voteTotals st)(postIdNum \<mapsto> count1),
                    votedCount = (if seen = None then votedCount st + 1 else votedCount st)\<rparr>)
          else st)"

definition totalVotes :: "(string \<Rightarrow> int option) \<Rightarrow> vote list \<Rightarrow> int set \<Rightarrow> int \<rightharpoonup> int" where
  "totalVotes js_Number voteStream wanted =
     voteTotals (readFile (voteHandler js_Number wanted) voteStream
                   \<lparr>voteTotals = Map.empty, votedCount = 0\<rparr>)"

section \<open>The answer extender: \<^verbatim>\<open>extendId\<close> and \<^verbatim>\<open>extendAnswersFromQuestions\<close>\<close>

text \<open>
  The search index is an external collaborator. What \<^verbatim>\<open>extendId\<close> asks of it is a
  parameter: \<open>search\<close> gives the hits of the query for the answers of a question (the
  stored answer documents, at most 1000 of them) or throws; \<open>getDocument\<close> gives the
  stored document of an id (\<open>None\<close> when \<^verbatim>\<open>found\<close> is false) or throws.
\<close>

record elastic_client =
  search :: "int \<Rightarrow> js_error + post list"
  getDocument :: "int \<Rightarrow> js_error + post option"

text \<open>
  \<^verbatim>\<open>extendId\<close> (lines 33-69): the promise resolves to \<^verbatim>\<open>localHits\<close>, paired here with
  the answer documents handed to \<^verbatim>\<open>promisePutDocument\<close>. A failing put is caught and
  printed per document and changes neither, so the puts' outcomes are left out.
\<close>

definition extendId :: "elastic_client \<Rightarrow> int \<Rightarrow> js_error + (nat \<times> post list)" where
  "extendId client questionId =
     (case search client questionId of
        Inl err \<Rightarrow> Inl err
      | Inr hits \<Rightarrow>
          if hits \<noteq> []
          then (case getDocument client questionId of
                  Inl err \<Rightarrow> Inl err
                | Inr None \<Rightarrow> Inr (0, [])
                | Inr (Some question) \<Rightarrow>
                    if post_PostTypeId question = POSTTYPEID_QUESTION
                    then Inr (length hits,
                              map (\<lambda>answerDocument.
                                     answerDocument\<lparr>post_Tags := post_Tags question,
                                                    post_ViewCount := post_ViewCount question,
                                                    post_QuestionTitle := post_Title question\<rparr>)
                                  hits)
                    else Inr (0, []))
          else Inr (0, []))"

text \<open>\<^verbatim>\<open>new Set(array)\<close>, in iteration order: every element once, at its first place.\<close>

fun js_Set :: "int list \<Rightarrow> int list" where
  "js_Set [] = []"
| "js_Set (x # xs) = x # filter (\<lambda>y. y \<noteq> x) (js_Set xs)"

text \<open>
  The loop of \<^verbatim>\<open>extendAnswersFromQuestions\<close> (lines 176-196). \<^verbatim>\<open>promiseBatch\<close> holds
  the values its promises resolve to: each promise ends in a \<^verbatim>\<open>then\<close> or a \<^verbatim>\<open>catch\<close>
  whose callback returns nothing, so each resolves to \<^verbatim>\<open>undefined\<close>. JavaScript adds
  to \<^verbatim>\<open>totalHits\<close> when a promise resolves; the model adds when the promise is made.
  Every promise has resolved when the function's own promise does (earlier batches are
  awaited when the batch is reset, the last one by the \<^verbatim>\<open>return\<close>), so the sum at the
  end is the same. A rejected \<^verbatim>\<open>extendId\<close> is swallowed by the \<^verbatim>\<open>catch\<close> and adds
  nothing.
\<close>

record extend_state =
  linesRead :: nat
  totalHits :: nat
  promiseBatch :: "jsval list"

definition extendStep :: "elastic_client \<Rightarrow> extend_state \<Rightarrow> int \<Rightarrow> extend_state" where
  "extendStep client st questionId =
     (let n = linesRead st + 1;
          batch = (if n mod 20 = 0 then [] else promiseBatch st);
          results = (case extendId client questionId of
                       Inl reason \<Rightarrow> 0
                     | Inr (localHits, written) \<Rightarrow> localHits)
      in \<lparr>linesRead = n, totalHits = totalHits st + results,
          promiseBatch = batch @ [Undefined]\<rparr>)"

definition extendLoop :: "elastic_client \<Rightarrow> int list \<Rightarrow> extend_state" where
  "extendLoop client questionIdList =
     foldl (extendStep client) \<lparr>linesRead = 0, totalHits = 0, promiseBatch = []\<rparr>
       questionIdList"

text \<open>
  \<^verbatim>\<open>extendAnswersFromQuestions\<close>: the first argument is what reading and parsing
  ExtendedQuestionIds.json gives, an error (which rejects the call) or the array. The
  result is what the returned \<^verbatim>\<open>Promise.all(promiseBatch)\<close> resolves to: the array of
  the values of the promises in the last batch.
\<close>

definition extendAnswersFromQuestions ::
  "js_error + int list \<Rightarrow> elastic_client \<Rightarrow> js_error + jsval" where
  "extendAnswersFromQuestions postIdsFile client =
     (case postIdsFile of
        Inl err \<Rightarrow> Inl err
      | Inr postIdsArray \<Rightarrow> Inr (Array (promiseBatch (extendLoop client (js_Set postIdsArray)))))"

section \<open>The loaders: \<^verbatim>\<open>indexFile\<close> and \<^verbatim>\<open>indexFromPostIds\<close>\<close>

text \<open>
  What the console shows and which rows the sink took are the state of a load. The
  sink's \<^verbatim>\<open>putDocument\<close> is a parameter: it stores the row or throws.
  \<^verbatim>\<open>prettyjson.render\<close> is a parameter too. \<^verbatim>\<open>'Error: ' + err\<close> prints an \<^verbatim>\<open>Error\<close>
  as \<^verbatim>\<open>Error: \<close> and its message.
\<close>

record 'r index_state =
  console :: "string list"
  stored :: "'r list"

definition startsWith :: "string \<Rightarrow> string \<Rightarrow> bool" where
  "startsWith s p = (take (length p) s = p)"

definition error_toString :: "js_error \<Rightarrow> string" where
  "error_toString err = ''Error: '' @ message err"

text \<open>The handler of \<^verbatim>\<open>indexFile\<close> (lines 78-93): it catches every failure of the put.\<close>

definition indexFile_handler ::
  "('r \<Rightarrow> js_error + jsval) \<Rightarrow> ('r \<Rightarrow> string) \<Rightarrow> 'r \<Rightarrow> 'r index_state \<Rightarrow> 'r index_state" where
  "indexFile_handler putDocument render lineObject st =
     (case putDocument lineObject of
        Inr result \<Rightarrow> st\<lparr>stored := stored st @ [lineObject]\<rparr>
      | Inl err \<Rightarrow>
          if startsWith (message err) ''Invalid Id'' then st
          else st\<lparr>console := console st @
                     [''Failed to index row: '' @ render lineObject,
                      ''Error: '' @ error_toString err]\<rparr>)"

text \<open>
  \<^verbatim>\<open>indexFile\<close>: a failing \<^verbatim>\<open>deleteIndex\<close> is ignored, a failing \<^verbatim>\<open>createIndex\<close>
  rejects the call, then the file is streamed through the handler.
\<close>

definition indexFile ::
  "(js_error + unit) \<Rightarrow> ('r \<Rightarrow> js_error + jsval) \<Rightarrow> ('r \<Rightarrow> string) \<Rightarrow> 'r list \<Rightarrow>
   js_error + 'r index_state" where
  "indexFile createIndex putDocument render file =
     (case createIndex of
        Inl err \<Rightarrow> Inl err
      | Inr u \<Rightarrow> Inr (readFile (indexFile_handler putDocument render) file
                        \<lparr>console = [], stored = []\<rparr>))"

text \<open>
  The rows \<^verbatim>\<open>indexFromPostIds\<close> streams, with the fields its handler reads, and the
  four file types of \<^verbatim>\<open>shouldIndexByType\<close>.
\<close>

record row =
  row_Id :: "int option"
  row_PostId :: "int option"
  row_RelatedPostId :: "int option"
  row_OwnerUserId :: "int option"
  row_UserId :: "int option"
  row_VoteCount :: "int option"

datatype elastic_type = sepost | secomment | seuser | sepostlink

record loader_state =
  loaded :: nat
  userIds :: "int set"
  loader_console :: "string list"

definition set_has :: "int set \<Rightarrow> int option \<Rightarrow> bool" where
  "set_has ids x = (case x of None \<Rightarrow> False | Some i \<Rightarrow> i \<in> ids)"

definition set_add :: "int set \<Rightarrow> int option \<Rightarrow> int set" where
  "set_add ids x = (case x of None \<Rightarrow> ids | Some i \<Rightarrow> insert i ids)"

definition shouldIndex :: "elastic_type \<Rightarrow> int set \<Rightarrow> int set \<Rightarrow> row \<Rightarrow> bool" where
  "shouldIndex type wanted users lineObject =
     (case type of
        sepost \<Rightarrow> set_has wanted (row_Id lineObject)
      | secomment \<Rightarrow> set_has wanted (row_PostId lineObject)
      | seuser \<Rightarrow>
          (case row_Id lineObject of
             None \<Rightarrow> False
           | Some i \<Rightarrow> if i < 0 then False else i \<in> users)
      | sepostlink \<Rightarrow>
          set_has wanted (row_PostId lineObject) \<or> set_has wanted (row_RelatedPostId lineObject))"

text \<open>
  The handler of \<^verbatim>\<open>indexFromPostIds\<close> (lines 257-272). It has no \<^verbatim>\<open>try\<close>: the state
  changes made before the put stand, and the promise the handler returns settles as
  the put does (\<open>Inl\<close> is a rejection; a row that is not wanted resolves to
  \<^verbatim>\<open>undefined\<close>). Nothing in it prints.
\<close>

definition indexFromPostIds_handler ::
  "elastic_type \<Rightarrow> int set \<Rightarrow> (int \<rightharpoonup> int) option \<Rightarrow> (row \<Rightarrow> js_error + jsval) \<Rightarrow>
   row \<Rightarrow> loader_state \<Rightarrow> loader_state \<times> (js_error + jsval)" where
  "indexFromPostIds_handler type wanted totals putDocument lineObject st =
     (if shouldIndex type wanted (userIds st) lineObject
      then (let voted = (case totals of
                           None \<Rightarrow> lineObject
                         | Some voteMap \<Rightarrow>
                             if type = sepost
                             then lineObject\<lparr>row_VoteCount :=
                                    Some (case row_Id lineObject of
                                            None \<Rightarrow> 0
                                          | Some i \<Rightarrow> (case voteMap i of None \<Rightarrow> 0 | Some n \<Rightarrow> n))\<rparr>
                             else lineObject);
                users = (if type = sepost then set_add (userIds st) (row_OwnerUserId voted)
                         else if type = secomment then set_add (userIds st) (row_UserId voted)
                         else userIds st)
            in (st\<lparr>loaded := loaded st + 1, userIds := users\<rparr>, putDocument voted))
      else (st, Inr Undefined))"

section \<open>Shapes of texts\<close>

text \<open>
  Where a text has a separator at its start, at its end, or two separators in a row.
  These are the texts that \<open>split_on\<close> cuts into pieces of which one is empty.
\<close>

fun adjacent_separators :: "(char \<Rightarrow> bool) \<Rightarrow> string \<Rightarrow> bool" where
  "adjacent_separators sep (a # b # cs) = ((sep a \<and> sep b) \<or> adjacent_separators sep (b # cs))"
| "adjacent_separators sep cs = False"

definition has_empty_piece :: "(char \<Rightarrow> bool) \<Rightarrow> string \<Rightarrow> bool" where
  "has_empty_piece sep s = (s \<noteq> [] \<and> (sep (hd s) \<or> sep (last s) \<or> adjacent_separators sep s))"

section \<open>Example records\<close>

text \<open>Rows used where a theorem is applied to a concrete stream.\<close>

definition a_question :: "int \<Rightarrow> string \<Rightarrow> string \<Rightarrow> string \<Rightarrow> post" where
  "a_question i title tags body =
     \<lparr>post_Id = i, post_PostTypeId = 1, post_ParentId = None, post_Title = Some title,
      post_Tags = Some tags, post_Body = Some body, post_ViewCount = Some 0,
      post_OwnerUserId = Some 1, post_QuestionTitle = None, post_VoteCount = None\<rparr>"

definition an_answer :: "int \<Rightarrow> int \<Rightarrow> string \<Rightarrow> post" where
  "an_answer i parent body =
     \<lparr>post_Id = i, post_PostTypeId = 2, post_ParentId = Some parent, post_Title = None,
      post_Tags = None, post_Body = Some body, post_ViewCount = None,
      post_OwnerUserId = Some 1, post_QuestionTitle = None, post_VoteCount = None\<rparr>"

text \<open>An instance of \<open>js_Number\<close>: what \<^verbatim>\<open>Number\<close> gives on a string of decimal digits.\<close>

definition decimal_Number :: "string \<Rightarrow> int option" where
  "decimal_Number s =
     (if list_all (\<lambda>c. 48 \<le> (of_char c :: nat) \<and> (of_char c :: nat) \<le> 57) s
      then Some (foldl (\<lambda>n c. 10 * n + int ((of_char c :: nat) - 48)) 0 s)
      else None)"

definition a_vote :: "string \<Rightarrow> string \<Rightarrow> vote" where
  "a_vote p t = \<lparr>vote_PostId = p, vote_VoteTypeId = t\<rparr>"

text \<open>A sink that holds question 1 with its two answers 6 and 7, and nothing else.\<close>

definition a_client :: elastic_client where
  "a_client =
     \<lparr>search = (\<lambda>questionId. if questionId = 1
                               then Inr [an_answer 6 1 ''six'', an_answer 7 1 ''seven'']
                               else Inr []),
      getDocument = (\<lambda>i. if i = 1 then Inr (Some (a_question 1 ''one'' ''faq'' ''body''))
                         else Inr None)\<rparr>"

text \<open>An HTML stripper that throws on one text and returns every other text as it is.\<close>

definition a_html2plaintext :: "string \<Rightarrow> js_error + string" where
  "a_html2plaintext s = (if s = ''<<'' then Inl (Error ''parse error'') else Inr s)"

text \<open>A sink that refuses the row with id 5, with an error that is not an invalid id.\<close>

definition a_putDocument :: "row \<Rightarrow> js_error + jsval" where
  "a_putDocument r = (if row_Id r = Some 5 then Inl (Error ''mapper_parsing_exception'')
                      else if row_Id r = Some (- 1) then Inl (Error ''Invalid Id: -1'')
                      else Inr Undefined)"

definition a_row :: "int \<Rightarrow> row" where
  "a_row i = \<lparr>row_Id = Some i, row_PostId = None, row_RelatedPostId = None,
              row_OwnerUserId = Some 9, row_UserId = None, row_VoteCount = None\<rparr>"

section \<open>The link-expansion pass\<close>

lemma readFile_append:
  "readFile handler (xs @ ys) st = readFile handler ys (readFile handler xs st)"
  by (induction xs arbitrary: st) simp_all

lemma linkHandler_questionIds: "questionIds (linkHandler l st) = questionIds st"
  by (simp add: linkHandler_def Let_def)

lemma linkHandler_postIds:
  "postIds (linkHandler l st) =
     postIds st \<union> (if link_PostId l \<in> questionIds st then {link_RelatedPostId l} else {})
                \<union> (if link_RelatedPostId l \<in> questionIds st then {link_PostId l} else {})"
  by (auto simp add: linkHandler_def Let_def)

lemma linkHandler_extended:
  "extendedQuestionIds (linkHandler l st) =
     extendedQuestionIds st \<union> (if link_PostId l \<in> questionIds st then {link_RelatedPostId l} else {})
                \<union> (if link_RelatedPostId l \<in> questionIds st then {link_PostId l} else {})"
  by (auto simp add: linkHandler_def Let_def)

lemma linkPass_questionIds: "questionIds (linkPass ls st) = questionIds st"
  unfolding linkPass_def
  by (induction ls arbitrary: st) (simp_all add: linkHandler_questionIds)

lemma linkPass_postIds:
  "postIds (linkPass ls st) =
     postIds st \<union> {link_RelatedPostId l | l. l \<in> set ls \<and> link_PostId l \<in> questionIds st}
                \<union> {link_PostId l | l. l \<in> set ls \<and> link_RelatedPostId l \<in> questionIds st}"
  unfolding linkPass_def
proof (induction ls arbitrary: st)
  case Nil
  show ?case by simp
next
  case (Cons l ls)
  show ?case
    by (simp add: Cons.IH linkHandler_questionIds linkHandler_postIds) blast
qed

lemma linkPass_extended:
  "extendedQuestionIds (linkPass ls st) =
     extendedQuestionIds st \<union> {link_RelatedPostId l | l. l \<in> set ls \<and> link_PostId l \<in> questionIds st}
                \<union> {link_PostId l | l. l \<in> set ls \<and> link_RelatedPostId l \<in> questionIds st}"
  unfolding linkPass_def
proof (induction ls arbitrary: st)
  case Nil
  show ?case by simp
next
  case (Cons l ls)
  show ?case
    by (simp add: Cons.IH linkHandler_questionIds linkHandler_extended) blast
qed

text \<open>
  Claim C2. In the link-expansion pass the seed set \<open>questionIds\<close> is never changed, and
  the pass adds to both \<open>postIds\<close> and \<open>extendedQuestionIds\<close> exactly the other endpoint
  of every link that has an endpoint in the seed. The ids added depend on the seed and
  the link stream only, not on what \<open>postIds\<close> and \<open>extendedQuestionIds\<close> hold or gain
  during the pass.
\<close>

theorem link_pass_snapshot:
  "questionIds (linkPass postLinks st) = questionIds st \<and>
   postIds (linkPass postLinks st) =
     postIds st \<union> {link_RelatedPostId l | l. l \<in> set postLinks \<and> link_PostId l \<in> questionIds st}
                \<union> {link_PostId l | l. l \<in> set postLinks \<and> link_RelatedPostId l \<in> questionIds st} \<and>
   extendedQuestionIds (linkPass postLinks st) =
     extendedQuestionIds st \<union> {link_RelatedPostId l | l. l \<in> set postLinks \<and> link_PostId l \<in> questionIds st}
                \<union> {link_PostId l | l. l \<in> set postLinks \<and> link_RelatedPostId l \<in> questionIds st}"
  using linkPass_questionIds linkPass_postIds linkPass_extended by blast

theorem link_pass_snapshot_witness:
  "linkPass [\<lparr>link_PostId = 3, link_RelatedPostId = 1\<rparr>,
             \<lparr>link_PostId = 2, link_RelatedPostId = 5\<rparr>,
             \<lparr>link_PostId = 3, link_RelatedPostId = 7\<rparr>] (initial_state [1, 2, 4])
     = \<lparr>questionIds = {1, 2, 4}, extendedQuestionIds = {5, 3, 1, 2, 4},
        postIds = {5, 3, 1, 2, 4}, documentCount = 2\<rparr> \<and>
   questionIds (linkPass [\<lparr>link_PostId = 3, link_RelatedPostId = 1\<rparr>,
                          \<lparr>link_PostId = 2, link_RelatedPostId = 5\<rparr>,
                          \<lparr>link_PostId = 3, link_RelatedPostId = 7\<rparr>] (initial_state [1, 2, 4]))
     = questionIds (initial_state [1, 2, 4])"
proof -
  have run: "linkPass [\<lparr>link_PostId = 3, link_RelatedPostId = 1\<rparr>,
             \<lparr>link_PostId = 2, link_RelatedPostId = 5\<rparr>,
             \<lparr>link_PostId = 3, link_RelatedPostId = 7\<rparr>] (initial_state [1, 2, 4])
     = \<lparr>questionIds = {1, 2, 4}, extendedQuestionIds = {5, 3, 1, 2, 4},
        postIds = {5, 3, 1, 2, 4}, documentCount = 2\<rparr>"
    by (simp add: linkPass_def linkHandler_def initial_state_def Let_def)
  have seed: "questionIds (linkPass [\<lparr>link_PostId = 3, link_RelatedPostId = 1\<rparr>,
                          \<lparr>link_PostId = 2, link_RelatedPostId = 5\<rparr>,
                          \<lparr>link_PostId = 3, link_RelatedPostId = 7\<rparr>] (initial_state [1, 2, 4]))
     = questionIds (initial_state [1, 2, 4])"
    using link_pass_snapshot [of "[\<lparr>link_PostId = 3, link_RelatedPostId = 1\<rparr>,
                      \<lparr>link_PostId = 2, link_RelatedPostId = 5\<rparr>,
                      \<lparr>link_PostId = 3, link_RelatedPostId = 7\<rparr>]" "initial_state [1, 2, 4]"]
    by (rule conjunct1)
  from run seed show ?thesis by (rule conjI)
qed

text \<open>
  Claim C8. The link-expansion pass is idempotent on the two sets: running it a second
  time over the same link stream, on the state the first run left (the seed is
  unchanged), gives the same \<open>extendedQuestionIds\<close> and the same \<open>postIds\<close>.
\<close>

theorem link_pass_idempotent:
  "extendedQuestionIds (linkPass postLinks (linkPass postLinks st)) =
     extendedQuestionIds (linkPass postLinks st) \<and>
   postIds (linkPass postLinks (linkPass postLinks st)) = postIds (linkPass postLinks st)"
proof -
  have q: "questionIds (linkPass postLinks st) = questionIds st"
    by (rule linkPass_questionIds)
  have e: "extendedQuestionIds (linkPass postLinks (linkPass postLinks st)) =
     extendedQuestionIds (linkPass postLinks st)"
    unfolding linkPass_extended [of postLinks "linkPass postLinks st"] q
    unfolding linkPass_extended [of postLinks st] by blast
  have p: "postIds (linkPass postLinks (linkPass postLinks st)) = postIds (linkPass postLinks st)"
    unfolding linkPass_postIds [of postLinks "linkPass postLinks st"] q
    unfolding linkPass_postIds [of postLinks st] by blast
  from e p show ?thesis by simp
qed

theorem link_pass_idempotent_witness:
  "extendedQuestionIds (linkPass [\<lparr>link_PostId = 3, link_RelatedPostId = 1\<rparr>]
      (linkPass [\<lparr>link_PostId = 3, link_RelatedPostId = 1\<rparr>] (initial_state [1, 2, 4])))
     = {1, 2, 3, 4} \<and>
   postIds (linkPass [\<lparr>link_PostId = 3, link_RelatedPostId = 1\<rparr>]
      (linkPass [\<lparr>link_PostId = 3, link_RelatedPostId = 1\<rparr>] (initial_state [1, 2, 4])))
     = {1, 2, 3, 4}"
proof -
  have once: "linkPass [\<lparr>link_PostId = 3, link_RelatedPostId = 1\<rparr>] (initial_state [1, 2, 4])
      = \<lparr>questionIds = {1, 2, 4}, extendedQuestionIds = {1, 2, 3, 4}, postIds = {1, 2, 3, 4},
         documentCount = 1\<rparr>"
    by (auto simp add: linkPass_def linkHandler_def initial_state_def Let_def)
  show ?thesis
    using link_pass_idempotent [of "[\<lparr>link_PostId = 3, link_RelatedPostId = 1\<rparr>]"
        "initial_state [1, 2, 4]"]
    by (simp add: once)
qed

section \<open>The Posts pass\<close>

lemma postHandler_extended_subset:
  "extendedQuestionIds (postHandler sr p st) \<subseteq> extendedQuestionIds st"
  by (auto simp add: postHandler_def Let_def)

lemma readFile_postHandler_extended_subset:
  "extendedQuestionIds (readFile (postHandler sr) ps st) \<subseteq> extendedQuestionIds st"
proof (induction ps arbitrary: st)
  case Nil
  show ?case by simp
next
  case (Cons p ps)
  have "extendedQuestionIds (readFile (postHandler sr) ps (postHandler sr p st))
          \<subseteq> extendedQuestionIds (postHandler sr p st)"
    by (rule Cons.IH)
  also have "\<dots> \<subseteq> extendedQuestionIds st"
    by (rule postHandler_extended_subset)
  finally show ?case by simp
qed

lemma postHandler_question:
  assumes "post_PostTypeId q = POSTTYPEID_QUESTION" "post_Id q \<in> extendedQuestionIds st" "sr q"
  shows "postHandler sr q st =
           st\<lparr>extendedQuestionIds := extendedQuestionIds st - {post_Id q},
              postIds := postIds st - {post_Id q}\<rparr>"
  using assms
  by (simp add: postHandler_def Let_def POSTTYPEID_QUESTION_def POSTTYPEID_ANSWER_def)

lemma postHandler_answer:
  assumes "post_PostTypeId a = POSTTYPEID_ANSWER" "post_ParentId a = Some parent"
    "parent \<in> extendedQuestionIds st" "\<not> sr a"
  shows "postHandler sr a st =
           st\<lparr>postIds := insert (post_Id a) (postIds st), documentCount := documentCount st + 1\<rparr>"
  using assms
  by (simp add: postHandler_def Let_def has_parent_def POSTTYPEID_QUESTION_def POSTTYPEID_ANSWER_def)

lemma postHandler_orphan:
  assumes "post_PostTypeId a = POSTTYPEID_ANSWER" "post_ParentId a = Some parent"
    "parent \<notin> extendedQuestionIds st"
  shows "postHandler sr a st = st"
  using assms
  by (simp add: postHandler_def Let_def has_parent_def POSTTYPEID_QUESTION_def POSTTYPEID_ANSWER_def)

lemma postHandler_rejected_gone:
  assumes "post_PostTypeId q = POSTTYPEID_QUESTION" "sr q"
  shows "post_Id q \<notin> extendedQuestionIds (postHandler sr q st)"
  using assms
  by (simp add: postHandler_def Let_def POSTTYPEID_QUESTION_def POSTTYPEID_ANSWER_def)

lemma postHandler_keeps:
  "x \<in> postIds st \<Longrightarrow> post_Id p \<noteq> x \<Longrightarrow> x \<in> postIds (postHandler sr p st)"
  by (auto simp add: postHandler_def Let_def)

lemma readFile_postHandler_keeps:
  "x \<in> postIds st \<Longrightarrow> \<forall>p\<in>set ps. post_Id p \<noteq> x \<Longrightarrow>
   x \<in> postIds (readFile (postHandler sr) ps st)"
  by (induction ps arbitrary: st) (simp_all add: postHandler_keeps)

lemma postPass_append:
  "postPass sr (xs @ ys) st = readFile (postHandler sr) ys (postPass sr xs st)"
  by (simp add: postPass_def readFile_append)

lemma postPass_snoc:
  "postPass sr (xs @ [p]) st = postHandler sr p (postPass sr xs st)"
  by (simp add: postPass_append)

text \<open>
  Claim C1. In the Posts pass: (1) a Question record whose id is in
  \<open>extendedQuestionIds\<close> when it is visited and that the exclude matcher matches has its
  id removed from both \<open>extendedQuestionIds\<close> and \<open>postIds\<close>; (2) an Answer record whose
  \<open>ParentId\<close> is in \<open>extendedQuestionIds\<close> when it is visited and that the exclude
  matcher does not match has its id added to \<open>postIds\<close>, and the count of admitted
  answers goes up by one; (3) an answer of a rejected question visited after the
  rejection is not admitted: visiting it leaves the state as it was; (4) an answer
  visited before the rejection of its parent is admitted, and it is still in \<open>postIds\<close>
  at the end of the pass, after its parent was rejected, in a stream where no later
  record carries the answer's own id (ids are unique in the stream).
\<close>

theorem post_pass_rejection_order:
  "(post_PostTypeId q = POSTTYPEID_QUESTION \<and> post_Id q \<in> extendedQuestionIds st \<and>
    shouldReject q \<longrightarrow>
      extendedQuestionIds (postHandler shouldReject q st) = extendedQuestionIds st - {post_Id q} \<and>
      postIds (postHandler shouldReject q st) = postIds st - {post_Id q}) \<and>
   (post_PostTypeId a = POSTTYPEID_ANSWER \<and> post_ParentId a = Some parent \<and>
    parent \<in> extendedQuestionIds st \<and> \<not> shouldReject a \<longrightarrow>
      postIds (postHandler shouldReject a st) = insert (post_Id a) (postIds st) \<and>
      documentCount (postHandler shouldReject a st) = documentCount st + 1) \<and>
   (post_PostTypeId q = POSTTYPEID_QUESTION \<and>
    post_Id q \<in> extendedQuestionIds (postPass shouldReject pre st) \<and> shouldReject q \<and>
    post_PostTypeId a = POSTTYPEID_ANSWER \<and> post_ParentId a = Some (post_Id q) \<longrightarrow>
      postPass shouldReject (pre @ q # mid @ [a]) st = postPass shouldReject (pre @ q # mid) st) \<and>
   (post_PostTypeId a = POSTTYPEID_ANSWER \<and> post_ParentId a = Some (post_Id q) \<and>
    post_Id q \<in> extendedQuestionIds (postPass shouldReject pre st) \<and> \<not> shouldReject a \<and>
    post_PostTypeId q = POSTTYPEID_QUESTION \<and> shouldReject q \<and>
    (\<forall>r\<in>set (mid @ q # rest). post_Id r \<noteq> post_Id a) \<longrightarrow>
      post_Id a \<in> postIds (postPass shouldReject (pre @ [a]) st) \<and>
      post_Id a \<in> postIds (postPass shouldReject (pre @ a # mid @ q # rest) st) \<and>
      post_Id q \<notin> extendedQuestionIds (postPass shouldReject (pre @ a # mid @ q # rest) st))"
proof (intro conjI impI)
  assume h: "post_PostTypeId q = POSTTYPEID_QUESTION \<and> post_Id q \<in> extendedQuestionIds st \<and>
    shouldReject q"
  then have e: "postHandler shouldReject q st =
           st\<lparr>extendedQuestionIds := extendedQuestionIds st - {post_Id q},
              postIds := postIds st - {post_Id q}\<rparr>"
    by (simp add: postHandler_question)
  show "extendedQuestionIds (postHandler shouldReject q st) = extendedQuestionIds st - {post_Id q}"
    by (simp add: e)
  show "postIds (postHandler shouldReject q st) = postIds st - {post_Id q}"
    by (simp add: e)
next
  assume h: "post_PostTypeId a = POSTTYPEID_ANSWER \<and> post_ParentId a = Some parent \<and>
    parent \<in> extendedQuestionIds st \<and> \<not> shouldReject a"
  then have e: "postHandler shouldReject a st =
           st\<lparr>postIds := insert (post_Id a) (postIds st), documentCount := documentCount st + 1\<rparr>"
    by (simp add: postHandler_answer)
  show "postIds (postHandler shouldReject a st) = insert (post_Id a) (postIds st)"
    by (simp add: e)
  show "documentCount (postHandler shouldReject a st) = documentCount st + 1"
    by (simp add: e)
next
  assume h: "post_PostTypeId q = POSTTYPEID_QUESTION \<and>
    post_Id q \<in> extendedQuestionIds (postPass shouldReject pre st) \<and> shouldReject q \<and>
    post_PostTypeId a = POSTTYPEID_ANSWER \<and> post_ParentId a = Some (post_Id q)"
  let ?s = "postPass shouldReject (pre @ q # mid) st"
  have s: "?s = readFile (postHandler shouldReject) mid
                  (postHandler shouldReject q (postPass shouldReject pre st))"
    by (simp add: postPass_append)
  have "post_Id q \<notin> extendedQuestionIds (postHandler shouldReject q (postPass shouldReject pre st))"
    using h by (simp add: postHandler_rejected_gone)
  then have gone: "post_Id q \<notin> extendedQuestionIds ?s"
    unfolding s using readFile_postHandler_extended_subset by blast
  have "postPass shouldReject ((pre @ q # mid) @ [a]) st = postHandler shouldReject a ?s"
    by (rule postPass_snoc)
  also have "\<dots> = ?s"
    using h gone by (simp add: postHandler_orphan)
  finally show "postPass shouldReject (pre @ q # mid @ [a]) st = ?s"
    by simp
next
  assume h: "post_PostTypeId a = POSTTYPEID_ANSWER \<and> post_ParentId a = Some (post_Id q) \<and>
    post_Id q \<in> extendedQuestionIds (postPass shouldReject pre st) \<and> \<not> shouldReject a \<and>
    post_PostTypeId q = POSTTYPEID_QUESTION \<and> shouldReject q \<and>
    (\<forall>r\<in>set (mid @ q # rest). post_Id r \<noteq> post_Id a)"
  let ?s = "postPass shouldReject pre st"
  have adm: "postHandler shouldReject a ?s =
           ?s\<lparr>postIds := insert (post_Id a) (postIds ?s), documentCount := documentCount ?s + 1\<rparr>"
    using h by (simp add: postHandler_answer)
  then have inn: "post_Id a \<in> postIds (postHandler shouldReject a ?s)"
    by simp
  show "post_Id a \<in> postIds (postPass shouldReject (pre @ [a]) st)"
    using inn by (simp add: postPass_snoc)
  have f: "postPass shouldReject (pre @ a # mid @ q # rest) st =
          readFile (postHandler shouldReject) (mid @ q # rest) (postHandler shouldReject a ?s)"
    by (simp add: postPass_append)
  show "post_Id a \<in> postIds (postPass shouldReject (pre @ a # mid @ q # rest) st)"
    unfolding f using inn h by (intro readFile_postHandler_keeps) simp_all
  let ?t = "readFile (postHandler shouldReject) mid (postHandler shouldReject a ?s)"
  have g: "postPass shouldReject (pre @ a # mid @ q # rest) st =
          readFile (postHandler shouldReject) rest (postHandler shouldReject q ?t)"
    by (simp add: postPass_append readFile_append)
  have "post_Id q \<notin> extendedQuestionIds (postHandler shouldReject q ?t)"
    using h by (simp add: postHandler_rejected_gone)
  then show "post_Id q \<notin> extendedQuestionIds (postPass shouldReject (pre @ a # mid @ q # rest) st)"
    unfolding g using readFile_postHandler_extended_subset by blast
qed

theorem post_pass_rejection_order_witness:
  "postIds (postHandler (\<lambda>p. post_Id p = 1) (a_question 1 ''t'' ''g'' ''b'') (initial_state [1])) = {} \<and>
   postIds (postHandler (\<lambda>p. post_Id p = 1) (an_answer 10 1 ''x'') (initial_state [1])) = {1, 10} \<and>
   documentCount (postHandler (\<lambda>p. post_Id p = 1) (an_answer 10 1 ''x'') (initial_state [1])) = 1 \<and>
   postPass (\<lambda>p. post_Id p = 1) [a_question 1 ''t'' ''g'' ''b'', an_answer 10 1 ''x''] (initial_state [1])
     = postPass (\<lambda>p. post_Id p = 1) [a_question 1 ''t'' ''g'' ''b''] (initial_state [1]) \<and>
   10 \<in> postIds (postPass (\<lambda>p. post_Id p = 1)
                    [an_answer 10 1 ''x'', a_question 1 ''t'' ''g'' ''b'', an_answer 11 1 ''y'']
                    (initial_state [1])) \<and>
   1 \<notin> extendedQuestionIds (postPass (\<lambda>p. post_Id p = 1)
                    [an_answer 10 1 ''x'', a_question 1 ''t'' ''g'' ''b'', an_answer 11 1 ''y'']
                    (initial_state [1]))"
  using post_pass_rejection_order [where q = "a_question 1 ''t'' ''g'' ''b''"
      and a = "an_answer 10 1 ''x''" and st = "initial_state [1]"
      and shouldReject = "\<lambda>p. post_Id p = 1" and parent = 1 and pre = "[]" and mid = "[]"
      and rest = "[an_answer 11 1 ''y'']"]
  by (auto simp add: a_question_def an_answer_def initial_state_def postPass_def
      POSTTYPEID_QUESTION_def POSTTYPEID_ANSWER_def)

section \<open>The invariant of the resolver\<close>

lemma linkHandler_inv:
  "extendedQuestionIds st \<subseteq> postIds st \<Longrightarrow>
   extendedQuestionIds (linkHandler l st) \<subseteq> postIds (linkHandler l st)"
  by (auto simp add: linkHandler_def Let_def)

lemma postHandler_inv:
  "extendedQuestionIds st \<subseteq> postIds st \<Longrightarrow>
   extendedQuestionIds (postHandler sr p st) \<subseteq> postIds (postHandler sr p st)"
  by (auto simp add: postHandler_def Let_def)

lemma readFile_inv:
  "(\<And>r s. P s \<Longrightarrow> P (handler r s)) \<Longrightarrow> P st \<Longrightarrow> P (readFile handler rs st)"
  by (induction rs arbitrary: st) simp_all

lemma linkPass_inv:
  "extendedQuestionIds st \<subseteq> postIds st \<Longrightarrow>
   extendedQuestionIds (linkPass ls st) \<subseteq> postIds (linkPass ls st)"
  unfolding linkPass_def
  by (rule readFile_inv [where P = "\<lambda>s. extendedQuestionIds s \<subseteq> postIds s"])
     (simp_all add: linkHandler_inv)

lemma postPass_inv:
  "extendedQuestionIds st \<subseteq> postIds st \<Longrightarrow>
   extendedQuestionIds (postPass sr ps st) \<subseteq> postIds (postPass sr ps st)"
  unfolding postPass_def
  by (rule readFile_inv [where P = "\<lambda>s. extendedQuestionIds s \<subseteq> postIds s"])
     (simp_all add: postHandler_inv)

lemma initial_inv: "extendedQuestionIds (initial_state seed) \<subseteq> postIds (initial_state seed)"
  by (simp add: initial_state_def)

text \<open>
  Claim C9. \<open>extendedQuestionIds \<subseteq> postIds\<close> holds after every record of the PostLinks
  pass (after any \<open>n\<close> records of the stream), after every record of the Posts pass
  (after any \<open>m\<close> records), and in the result \<^verbatim>\<open>getAllPostIds\<close> returns.
\<close>

theorem extended_subset_postIds:
  "extendedQuestionIds (linkPass (take n postLinks) (initial_state seed))
     \<subseteq> postIds (linkPass (take n postLinks) (initial_state seed)) \<and>
   extendedQuestionIds (postPass shouldReject (take m posts) (linkPass postLinks (initial_state seed)))
     \<subseteq> postIds (postPass shouldReject (take m posts) (linkPass postLinks (initial_state seed))) \<and>
   (getAllPostIds stemmer html2plaintext tagsToExclude seed postsXml postLinksXml excludeTags
      = Inr (resultPostIds, admitted, resultExtended) \<longrightarrow> resultExtended \<subseteq> resultPostIds)"
proof (intro conjI impI)
  show "extendedQuestionIds (linkPass (take n postLinks) (initial_state seed))
     \<subseteq> postIds (linkPass (take n postLinks) (initial_state seed))"
    by (rule linkPass_inv [OF initial_inv])
  show "extendedQuestionIds (postPass shouldReject (take m posts) (linkPass postLinks (initial_state seed)))
     \<subseteq> postIds (postPass shouldReject (take m posts) (linkPass postLinks (initial_state seed)))"
    by (rule postPass_inv [OF linkPass_inv [OF initial_inv]])
  assume r: "getAllPostIds stemmer html2plaintext tagsToExclude seed postsXml postLinksXml excludeTags
      = Inr (resultPostIds, admitted, resultExtended)"
  then obtain posts' links' sr where
    "resultPostIds = postIds (postPass sr posts' (linkPass links' (initial_state seed)))"
    "resultExtended = extendedQuestionIds (postPass sr posts' (linkPass links' (initial_state seed)))"
    by (auto simp add: getAllPostIds_def Let_def split: option.splits)
  then show "resultExtended \<subseteq> resultPostIds"
    using postPass_inv [OF linkPass_inv [OF initial_inv]] by simp
qed

theorem extended_subset_postIds_witness:
  "getAllPostIds (\<lambda>w. w) Inr '''' [1, 2, 4]
      (Some [a_question 1 ''one'' ''faq'' ''b1'', a_question 2 ''two'' ''faq'' ''b2'',
             a_question 3 ''three'' ''meta'' ''b3'', an_answer 6 1 ''a6'', an_answer 8 2 ''a8'',
             an_answer 9 5 ''a9''])
      (Some [\<lparr>link_PostId = 3, link_RelatedPostId = 1\<rparr>]) ''''
     = Inr ({1, 2, 3, 4, 6, 8}, 2, {1, 2, 3, 4}) \<and>
   ({1, 2, 3, 4} :: int set) \<subseteq> {1, 2, 3, 4, 6, 8} \<and>
   extendedQuestionIds (linkPass (take 1 [\<lparr>link_PostId = 3, link_RelatedPostId = 1\<rparr>])
       (initial_state [1, 2, 4]))
     \<subseteq> postIds (linkPass (take 1 [\<lparr>link_PostId = 3, link_RelatedPostId = 1\<rparr>])
       (initial_state [1, 2, 4]))"
proof -
  have run: "getAllPostIds (\<lambda>w. w) Inr '''' [1, 2, 4]
      (Some [a_question 1 ''one'' ''faq'' ''b1'', a_question 2 ''two'' ''faq'' ''b2'',
             a_question 3 ''three'' ''meta'' ''b3'', an_answer 6 1 ''a6'', an_answer 8 2 ''a8'',
             an_answer 9 5 ''a9''])
      (Some [\<lparr>link_PostId = 3, link_RelatedPostId = 1\<rparr>]) ''''
     = Inr ({1, 2, 3, 4, 6, 8}, 2, {1, 2, 3, 4})"
    by (auto simp add: getAllPostIds_def makeDoesMatch_def linkPass_def postPass_def
        linkHandler_def postHandler_def has_parent_def initial_state_def Let_def
        a_question_def an_answer_def POSTTYPEID_QUESTION_def POSTTYPEID_ANSWER_def)
  show ?thesis
    using run extended_subset_postIds [where stemmer = "\<lambda>w. w" and ?html2plaintext = Inr
        and tagsToExclude = "''''" and seed = "[1, 2, 4]"
        and postsXml = "Some [a_question 1 ''one'' ''faq'' ''b1'', a_question 2 ''two'' ''faq'' ''b2'',
             a_question 3 ''three'' ''meta'' ''b3'', an_answer 6 1 ''a6'', an_answer 8 2 ''a8'',
             an_answer 9 5 ''a9'']"
        and postLinksXml = "Some [\<lparr>link_PostId = 3, link_RelatedPostId = 1\<rparr>]"
        and excludeTags = "''''" and resultPostIds = "{1, 2, 3, 4, 6, 8}" and admitted = 2
        and resultExtended = "{1, 2, 3, 4}" and n = 1
        and postLinks = "[\<lparr>link_PostId = 3, link_RelatedPostId = 1\<rparr>]"]
    by blast
qed

section \<open>The vote aggregator\<close>

lemma updown_distinct: "VOTETYPEID_UPMOD \<noteq> VOTETYPEID_DOWNMOD"
  by (simp add: VOTETYPEID_UPMOD_def VOTETYPEID_DOWNMOD_def)

lemma voteHandler_lookup:
  "voteTotals (voteHandler js_Number wanted v st) p =
     (if js_Number (vote_PostId v) = Some p \<and> p \<in> wanted
      then Some ((case voteTotals st p of None \<Rightarrow> 0 | Some c \<Rightarrow> c) +
                 (if vote_VoteTypeId v = VOTETYPEID_UPMOD then 1
                  else if vote_VoteTypeId v = VOTETYPEID_DOWNMOD then - 1 else 0))
      else voteTotals st p)"
proof (cases "js_Number (vote_PostId v)")
  case None
  then show ?thesis by (simp add: voteHandler_def)
next
  case (Some q)
  show ?thesis
  proof (cases "q \<in> wanted")
    case False
    with Some show ?thesis by (auto simp add: voteHandler_def)
  next
    case True
    show ?thesis
    proof (cases "p = q")
      case False
      with Some True show ?thesis by (simp add: voteHandler_def Let_def)
    next
      case eq: True
      with Some True show ?thesis by (simp add: voteHandler_def Let_def)
    qed
  qed
qed

lemma voteTotals_readFile:
  "voteTotals (readFile (voteHandler js_Number wanted) vs st) p =
     (if p \<in> wanted \<and> (\<exists>v\<in>set vs. js_Number (vote_PostId v) = Some p)
      then Some ((case voteTotals st p of None \<Rightarrow> 0 | Some c \<Rightarrow> c)
                 + int (length (filter (\<lambda>v. js_Number (vote_PostId v) = Some p \<and>
                                              vote_VoteTypeId v = VOTETYPEID_UPMOD) vs))
                 - int (length (filter (\<lambda>v. js_Number (vote_PostId v) = Some p \<and>
                                              vote_VoteTypeId v = VOTETYPEID_DOWNMOD) vs)))
      else voteTotals st p)"
proof (induction vs arbitrary: st)
  case Nil
  show ?case by simp
next
  case (Cons v vs)
  let ?st = "voteHandler js_Number wanted v st"
  have step: "voteTotals (readFile (voteHandler js_Number wanted) (v # vs) st) p =
     (if p \<in> wanted \<and> (\<exists>v\<in>set vs. js_Number (vote_PostId v) = Some p)
      then Some ((case voteTotals ?st p of None \<Rightarrow> 0 | Some c \<Rightarrow> c)
                 + int (length (filter (\<lambda>v. js_Number (vote_PostId v) = Some p \<and>
                                              vote_VoteTypeId v = VOTETYPEID_UPMOD) vs))
                 - int (length (filter (\<lambda>v. js_Number (vote_PostId v) = Some p \<and>
                                              vote_VoteTypeId v = VOTETYPEID_DOWNMOD) vs)))
      else voteTotals ?st p)"
    using Cons.IH [of ?st] by simp
  show ?case
  proof (cases "js_Number (vote_PostId v) = Some p \<and> p \<in> wanted")
    case False
    then have same: "voteTotals ?st p = voteTotals st p"
      by (cases "js_Number (vote_PostId v) = Some p") (simp_all add: voteHandler_lookup)
    from False show ?thesis
      unfolding step same
      by (cases "js_Number (vote_PostId v) = Some p") (simp_all, blast+)
  next
    case True
    then have new: "voteTotals ?st p =
        Some ((case voteTotals st p of None \<Rightarrow> 0 | Some c \<Rightarrow> c) +
                 (if vote_VoteTypeId v = VOTETYPEID_UPMOD then 1
                  else if vote_VoteTypeId v = VOTETYPEID_DOWNMOD then - 1 else 0))"
      by (simp add: voteHandler_lookup)
    from True updown_distinct show ?thesis
      unfolding step new by simp
  qed
qed

lemma totalVotes_closed:
  "totalVotes js_Number voteStream wanted p =
     (if p \<in> wanted \<and> (\<exists>v\<in>set voteStream. js_Number (vote_PostId v) = Some p)
      then Some (int (length (filter (\<lambda>v. js_Number (vote_PostId v) = Some p \<and>
                                            vote_VoteTypeId v = VOTETYPEID_UPMOD) voteStream))
                 - int (length (filter (\<lambda>v. js_Number (vote_PostId v) = Some p \<and>
                                              vote_VoteTypeId v = VOTETYPEID_DOWNMOD) voteStream)))
      else None)"
  by (simp add: totalVotes_def voteTotals_readFile)

lemma voteHandler_ignores:
  "js_Number (vote_PostId v) = None \<or> (\<exists>p. js_Number (vote_PostId v) = Some p \<and> p \<notin> wanted) \<Longrightarrow>
   voteHandler js_Number wanted v st = st"
  by (auto simp add: voteHandler_def)

text \<open>
  Claim C3. \<^verbatim>\<open>totalVotes\<close> has an entry for an id exactly when the id is wanted and
  some vote of the stream is for it; the entry is the number of the id's upmod votes
  minus the number of its downmod votes (votes of any other type count nothing, so an
  id with only such votes has the entry 0). A vote for an id that is not wanted leaves
  the state as it was. The first vote for a wanted id starts from 0 and applies the
  vote's delta; a later one applies its delta to the running count.
\<close>

theorem totalVotes_running_count:
  "totalVotes js_Number voteStream wanted postId =
     (if postId \<in> wanted \<and> (\<exists>v\<in>set voteStream. js_Number (vote_PostId v) = Some postId)
      then Some (int (length (filter (\<lambda>v. js_Number (vote_PostId v) = Some postId \<and>
                                            vote_VoteTypeId v = VOTETYPEID_UPMOD) voteStream))
                 - int (length (filter (\<lambda>v. js_Number (vote_PostId v) = Some postId \<and>
                                              vote_VoteTypeId v = VOTETYPEID_DOWNMOD) voteStream)))
      else None) \<and>
   (js_Number (vote_PostId v) = Some p \<and> p \<notin> wanted \<longrightarrow>
      voteHandler js_Number wanted v st = st) \<and>
   (js_Number (vote_PostId v) = Some p \<and> p \<in> wanted \<and> voteTotals st p = None \<longrightarrow>
      voteTotals (voteHandler js_Number wanted v st) p =
        Some (0 + (if vote_VoteTypeId v = VOTETYPEID_UPMOD then 1
                   else if vote_VoteTypeId v = VOTETYPEID_DOWNMOD then - 1 else 0))) \<and>
   (js_Number (vote_PostId v) = Some p \<and> p \<in> wanted \<and> voteTotals st p = Some n \<longrightarrow>
      voteTotals (voteHandler js_Number wanted v st) p =
        Some (n + (if vote_VoteTypeId v = VOTETYPEID_UPMOD then 1
                   else if vote_VoteTypeId v = VOTETYPEID_DOWNMOD then - 1 else 0)))"
proof (intro conjI impI)
  show "totalVotes js_Number voteStream wanted postId =
     (if postId \<in> wanted \<and> (\<exists>v\<in>set voteStream. js_Number (vote_PostId v) = Some postId)
      then Some (int (length (filter (\<lambda>v. js_Number (vote_PostId v) = Some postId \<and>
                                            vote_VoteTypeId v = VOTETYPEID_UPMOD) voteStream))
                 - int (length (filter (\<lambda>v. js_Number (vote_PostId v) = Some postId \<and>
                                              vote_VoteTypeId v = VOTETYPEID_DOWNMOD) voteStream)))
      else None)"
    by (rule totalVotes_closed)
next
  assume "js_Number (vote_PostId v) = Some p \<and> p \<notin> wanted"
  then show "voteHandler js_Number wanted v st = st"
    by (intro voteHandler_ignores) blast
next
  assume "js_Number (vote_PostId v) = Some p \<and> p \<in> wanted \<and> voteTotals st p = None"
  then show "voteTotals (voteHandler js_Number wanted v st) p =
        Some (0 + (if vote_VoteTypeId v = VOTETYPEID_UPMOD then 1
                   else if vote_VoteTypeId v = VOTETYPEID_DOWNMOD then - 1 else 0))"
    by (simp add: voteHandler_lookup)
next
  assume "js_Number (vote_PostId v) = Some p \<and> p \<in> wanted \<and> voteTotals st p = Some n"
  then show "voteTotals (voteHandler js_Number wanted v st) p =
        Some (n + (if vote_VoteTypeId v = VOTETYPEID_UPMOD then 1
                   else if vote_VoteTypeId v = VOTETYPEID_DOWNMOD then - 1 else 0))"
    by (simp add: voteHandler_lookup)
qed

theorem totalVotes_running_count_witness:
  "totalVotes decimal_Number
      [a_vote ''1'' ''2'', a_vote ''1'' ''2'', a_vote ''1'' ''3'', a_vote ''2'' ''2'',
       a_vote ''3'' ''2'', a_vote ''4'' ''5'', a_vote ''x'' ''2''] {1, 2, 4, 7}
     = [1 \<mapsto> 1, 2 \<mapsto> 1, 4 \<mapsto> 0] \<and>
   voteHandler decimal_Number {1, 2, 4, 7} (a_vote ''3'' ''2'')
       \<lparr>voteTotals = Map.empty, votedCount = 0\<rparr>
     = \<lparr>voteTotals = Map.empty, votedCount = 0\<rparr> \<and>
   voteTotals (voteHandler decimal_Number {1, 2, 4, 7} (a_vote ''4'' ''5'')
       \<lparr>voteTotals = Map.empty, votedCount = 0\<rparr>) 4 = Some 0 \<and>
   voteTotals (voteHandler decimal_Number {1, 2, 4, 7} (a_vote ''4'' ''3'')
       \<lparr>voteTotals = [4 \<mapsto> 0], votedCount = 1\<rparr>) 4 = Some (- 1)"
proof -
  have run: "totalVotes decimal_Number
      [a_vote ''1'' ''2'', a_vote ''1'' ''2'', a_vote ''1'' ''3'', a_vote ''2'' ''2'',
       a_vote ''3'' ''2'', a_vote ''4'' ''5'', a_vote ''x'' ''2''] {1, 2, 4, 7}
     = [1 \<mapsto> 1, 2 \<mapsto> 1, 4 \<mapsto> 0]"
    by (simp add: totalVotes_def voteHandler_def a_vote_def decimal_Number_def Let_def
        VOTETYPEID_UPMOD_def VOTETYPEID_DOWNMOD_def)
  have n3: "decimal_Number (vote_PostId (a_vote ''3'' ''2'')) = Some 3 \<and> (3::int) \<notin> {1, 2, 4, 7}"
    by (simp add: a_vote_def decimal_Number_def)
  have n4: "decimal_Number (vote_PostId (a_vote ''4'' ''5'')) = Some 4 \<and> (4::int) \<in> {1, 2, 4, 7} \<and>
      voteTotals \<lparr>voteTotals = Map.empty, votedCount = 0\<rparr> 4 = None"
    by (simp add: a_vote_def decimal_Number_def)
  have n4': "decimal_Number (vote_PostId (a_vote ''4'' ''3'')) = Some 4 \<and> (4::int) \<in> {1, 2, 4, 7} \<and>
      voteTotals \<lparr>voteTotals = [4 \<mapsto> 0], votedCount = 1\<rparr> 4 = Some 0"
    by (simp add: a_vote_def decimal_Number_def)
  have a: "voteHandler decimal_Number {1, 2, 4, 7} (a_vote ''3'' ''2'')
       \<lparr>voteTotals = Map.empty, votedCount = 0\<rparr>
     = \<lparr>voteTotals = Map.empty, votedCount = 0\<rparr>"
    using n3 totalVotes_running_count [where js_Number = decimal_Number and wanted = "{1, 2, 4, 7}"
        and v = "a_vote ''3'' ''2''" and p = 3
        and st = "\<lparr>voteTotals = Map.empty, votedCount = 0\<rparr>"]
    by blast
  have b: "voteTotals (voteHandler decimal_Number {1, 2, 4, 7} (a_vote ''4'' ''5'')
       \<lparr>voteTotals = Map.empty, votedCount = 0\<rparr>) 4 = Some 0"
    using n4 totalVotes_running_count [where js_Number = decimal_Number and wanted = "{1, 2, 4, 7}"
        and v = "a_vote ''4'' ''5''" and p = 4
        and st = "\<lparr>voteTotals = Map.empty, votedCount = 0\<rparr>"]
    by (simp add: a_vote_def VOTETYPEID_UPMOD_def VOTETYPEID_DOWNMOD_def)
  have c: "voteTotals (voteHandler decimal_Number {1, 2, 4, 7} (a_vote ''4'' ''3'')
       \<lparr>voteTotals = [4 \<mapsto> 0], votedCount = 1\<rparr>) 4 = Some (- 1)"
    using n4' totalVotes_running_count [where js_Number = decimal_Number and wanted = "{1, 2, 4, 7}"
        and v = "a_vote ''4'' ''3''" and p = 4 and n = 0
        and st = "\<lparr>voteTotals = [4 \<mapsto> 0], votedCount = 1\<rparr>"]
    by (simp add: a_vote_def VOTETYPEID_UPMOD_def VOTETYPEID_DOWNMOD_def)
  from run a b c show ?thesis by blast
qed

lemma length_filter_mset:
  "mset xs = mset ys \<Longrightarrow> length (filter P xs) = length (filter P ys)"
proof -
  assume "mset xs = mset ys"
  then have "mset (filter P xs) = mset (filter P ys)"
    by simp
  then show ?thesis
    by (rule mset_eq_length)
qed

text \<open>
  Claim C7. \<^verbatim>\<open>totalVotes\<close> does not depend on the order of the votes: two streams
  that are permutations of each other give the same map, that is the same keys with
  the same net score each.
\<close>

theorem totalVotes_order_independent:
  assumes "mset voteStream = mset voteStream'"
  shows "totalVotes js_Number voteStream wanted = totalVotes js_Number voteStream' wanted"
proof (rule ext)
  fix p
  have s: "set voteStream = set voteStream'"
    using assms by (rule mset_eq_setD)
  show "totalVotes js_Number voteStream wanted p = totalVotes js_Number voteStream' wanted p"
    unfolding totalVotes_closed s
    by (simp add: length_filter_mset [OF assms])
qed

theorem totalVotes_order_independent_witness:
  "mset [a_vote ''1'' ''2'', a_vote ''2'' ''3'', a_vote ''1'' ''3'']
     = mset [a_vote ''1'' ''3'', a_vote ''1'' ''2'', a_vote ''2'' ''3''] \<and>
   totalVotes decimal_Number [a_vote ''1'' ''2'', a_vote ''2'' ''3'', a_vote ''1'' ''3''] {1, 2}
     = totalVotes decimal_Number [a_vote ''1'' ''3'', a_vote ''1'' ''2'', a_vote ''2'' ''3''] {1, 2} \<and>
   totalVotes decimal_Number [a_vote ''1'' ''3'', a_vote ''1'' ''2'', a_vote ''2'' ''3''] {1, 2}
     = [1 \<mapsto> 0, 2 \<mapsto> - 1]"
proof -
  have m: "mset [a_vote ''1'' ''2'', a_vote ''2'' ''3'', a_vote ''1'' ''3'']
     = mset [a_vote ''1'' ''3'', a_vote ''1'' ''2'', a_vote ''2'' ''3'']"
    by (simp add: add.commute add.left_commute)
  have run: "totalVotes decimal_Number [a_vote ''1'' ''3'', a_vote ''1'' ''2'', a_vote ''2'' ''3''] {1, 2}
     = [1 \<mapsto> 0, 2 \<mapsto> - 1]"
    by (simp add: totalVotes_def voteHandler_def a_vote_def decimal_Number_def Let_def
        VOTETYPEID_UPMOD_def VOTETYPEID_DOWNMOD_def)
  from m run totalVotes_order_independent [OF m, of decimal_Number "{1, 2}"]
  show ?thesis by blast
qed

section \<open>The answer extender\<close>

lemma batch_full: "(n + 1) mod 20 = 0 \<Longrightarrow> \<not> n + 1 < (20::nat)"
proof
  assume z: "(n + 1) mod 20 = 0" and "n + 1 < 20"
  then have "(n + 1) mod 20 = n + 1" by (intro mod_less)
  with z show False by simp
qed

lemma batch_grows: "(n + 1) mod 20 \<noteq> 0 \<Longrightarrow> (n + 1) mod 20 = n mod 20 + (1::nat)"
  by (simp add: mod_Suc split: if_splits)

lemma batch_small: "(n + 1) mod 20 \<noteq> 0 \<Longrightarrow> n < 20 \<Longrightarrow> n + 1 < (20::nat)"
proof -
  assume nz: "(n + 1) mod 20 \<noteq> 0" and "n < 20"
  then have "n + 1 < 20 \<or> n + 1 = 20" by linarith
  then show ?thesis
  proof
    assume "n + 1 = 20"
    then have "(n + 1) mod 20 = 0" by simp
    with nz show ?thesis by simp
  qed simp
qed

lemma extendStep_linesRead: "linesRead (extendStep client st q) = linesRead st + 1"
  by (simp add: extendStep_def Let_def)

lemma extendStep_totalHits:
  "totalHits (extendStep client st q) =
     totalHits st + (case extendId client q of Inl reason \<Rightarrow> 0 | Inr (localHits, written) \<Rightarrow> localHits)"
  by (simp add: extendStep_def Let_def)

lemma extendStep_promiseBatch:
  "promiseBatch (extendStep client st q) =
     (if (linesRead st + 1) mod 20 = 0 then [] else promiseBatch st) @ [Undefined]"
  by (simp add: extendStep_def Let_def)

lemma replicate_snoc: "replicate k x @ [x] = replicate (k + 1) x"
  by (simp add: replicate_append_same)

lemma extendStep_batch:
  assumes "promiseBatch st =
             replicate (if linesRead st < 20 then linesRead st else linesRead st mod 20 + 1) Undefined"
  shows "promiseBatch (extendStep client st q) =
           replicate (if linesRead st + 1 < 20 then linesRead st + 1
                      else (linesRead st + 1) mod 20 + 1) Undefined"
proof (cases "(linesRead st + 1) mod 20 = 0")
  case True
  have full: "\<not> linesRead st + 1 < 20"
    using True by (rule batch_full)
  have "promiseBatch (extendStep client st q) = [Undefined]"
    unfolding extendStep_promiseBatch using True by simp
  also have "\<dots> = replicate ((linesRead st + 1) mod 20 + 1) Undefined"
    unfolding True by simp
  finally show ?thesis
    using full by presburger
next
  case False
  have b: "promiseBatch (extendStep client st q) = promiseBatch st @ [Undefined]"
    unfolding extendStep_promiseBatch using False by simp
  show ?thesis
  proof (cases "linesRead st < 20")
    case True
    have small: "linesRead st + 1 < 20"
      using False True by (rule batch_small)
    have "promiseBatch st = replicate (linesRead st) Undefined"
      unfolding assms using True by simp
    then have "promiseBatch (extendStep client st q) = replicate (linesRead st + 1) Undefined"
      unfolding b by (simp only: replicate_snoc)
    then show ?thesis
      using small by presburger
  next
    case ge: False
    have m: "(linesRead st + 1) mod 20 = linesRead st mod 20 + 1"
      using False by (rule batch_grows)
    have big: "\<not> linesRead st + 1 < 20"
      using ge by linarith
    have "promiseBatch st = replicate (linesRead st mod 20 + 1) Undefined"
      unfolding assms using ge by simp
    then have "promiseBatch (extendStep client st q) =
        replicate ((linesRead st mod 20 + 1) + 1) Undefined"
      unfolding b by (simp only: replicate_snoc)
    then have "promiseBatch (extendStep client st q) =
        replicate ((linesRead st + 1) mod 20 + 1) Undefined"
      unfolding m .
    then show ?thesis
      using big by presburger
  qed
qed

lemma foldl_extendStep:
  assumes "promiseBatch st =
             replicate (if linesRead st < 20 then linesRead st else linesRead st mod 20 + 1) Undefined"
  shows "linesRead (foldl (extendStep client) st qs) = linesRead st + length qs \<and>
         totalHits (foldl (extendStep client) st qs) =
           totalHits st + sum_list (map (\<lambda>q. case extendId client q of
                                                Inl reason \<Rightarrow> 0
                                              | Inr (localHits, written) \<Rightarrow> localHits) qs) \<and>
         promiseBatch (foldl (extendStep client) st qs) =
           replicate (if linesRead st + length qs < 20 then linesRead st + length qs
                      else (linesRead st + length qs) mod 20 + 1) Undefined"
  using assms
proof (induction qs arbitrary: st)
  case Nil
  then show ?case by simp
next
  case (Cons q qs)
  let ?st = "extendStep client st q"
  have inv: "promiseBatch ?st =
             replicate (if linesRead ?st < 20 then linesRead ?st else linesRead ?st mod 20 + 1) Undefined"
    using extendStep_batch [OF Cons.prems] by (simp add: extendStep_linesRead)
  show ?case
    using Cons.IH [OF inv]
    by (simp add: extendStep_linesRead extendStep_totalHits)
qed

lemma extendLoop_closed:
  "linesRead (extendLoop client qs) = length qs \<and>
   totalHits (extendLoop client qs) =
     sum_list (map (\<lambda>q. case extendId client q of
                          Inl reason \<Rightarrow> 0
                        | Inr (localHits, written) \<Rightarrow> localHits) qs) \<and>
   promiseBatch (extendLoop client qs) =
     replicate (if length qs < 20 then length qs else length qs mod 20 + 1) Undefined"
  unfolding extendLoop_def
  using foldl_extendStep [of "\<lparr>linesRead = 0, totalHits = 0, promiseBatch = []\<rparr>" client qs]
  by simp

lemma a_client_extendId:
  "extendId a_client 1 =
     Inr (2, [(an_answer 6 1 ''six'')\<lparr>post_Tags := Some ''faq'', post_ViewCount := Some 0,
                                       post_QuestionTitle := Some ''one''\<rparr>,
              (an_answer 7 1 ''seven'')\<lparr>post_Tags := Some ''faq'', post_ViewCount := Some 0,
                                       post_QuestionTitle := Some ''one''\<rparr>])"
  by (simp add: extendId_def a_client_def a_question_def an_answer_def POSTTYPEID_QUESTION_def)

text \<open>
  Claim C4 says that \<^verbatim>\<open>extendAnswersFromQuestions\<close> returns the total number of
  answers extended. It does not: on a sink where question 1 has two answers, both
  extended, the call resolves to an array holding one \<^verbatim>\<open>undefined\<close>, not to 2.
\<close>

theorem extendAnswersFromQuestions_total_counterexample:
  "(case extendId a_client 1 of Inl reason \<Rightarrow> 0 | Inr (localHits, written) \<Rightarrow> localHits) = 2 \<and>
   extendAnswersFromQuestions (Inr [1]) a_client = Inr (Array [Undefined]) \<and>
   extendAnswersFromQuestions (Inr [1]) a_client \<noteq> Inr (Num 2)"
  by (simp add: a_client_extendId extendAnswersFromQuestions_def extendLoop_def extendStep_def
      Let_def)

text \<open>
  Claim C4, as the code has it. \<^verbatim>\<open>extendAnswersFromQuestions\<close> resolves to the array
  \<^verbatim>\<open>Promise.all\<close> gives for the last batch: one \<^verbatim>\<open>undefined\<close> for every question id of
  that batch (all \<open>n\<close> ids when \<open>n < 20\<close>, else \<open>n mod 20 + 1\<close> of them), and so never to
  a number. The total, the sum over the processed question ids of the count
  \<^verbatim>\<open>extendId\<close> gives (nothing for an id whose \<^verbatim>\<open>extendId\<close> rejects), is what the
  local \<^verbatim>\<open>totalHits\<close> holds at the end. A file that cannot be read rejects the call.
\<close>

theorem extendAnswersFromQuestions_returns_last_batch:
  "extendAnswersFromQuestions (Inr postIdsArray) client =
     Inr (Array (replicate (if length (js_Set postIdsArray) < 20 then length (js_Set postIdsArray)
                            else length (js_Set postIdsArray) mod 20 + 1) Undefined)) \<and>
   extendAnswersFromQuestions (Inr postIdsArray) client \<noteq> Inr (Num answersExtended) \<and>
   totalHits (extendLoop client (js_Set postIdsArray)) =
     sum_list (map (\<lambda>questionId. case extendId client questionId of
                                   Inl reason \<Rightarrow> 0
                                 | Inr (localHits, written) \<Rightarrow> localHits)
                   (js_Set postIdsArray)) \<and>
   extendAnswersFromQuestions (Inl err) client = Inl err"
  using extendLoop_closed [of client "js_Set postIdsArray"]
  by (simp add: extendAnswersFromQuestions_def)

theorem extendAnswersFromQuestions_returns_last_batch_witness:
  "extendAnswersFromQuestions (Inr [1, 2, 1]) a_client = Inr (Array [Undefined, Undefined]) \<and>
   totalHits (extendLoop a_client (js_Set [1, 2, 1])) = 2"
proof -
  have two: "extendId a_client 2 = Inr (0, [])"
    by (simp add: extendId_def a_client_def)
  show ?thesis
    using extendAnswersFromQuestions_returns_last_batch [of "[1, 2, 1]" a_client]
    by (simp add: a_client_extendId two)
qed

section \<open>The matcher when text processing throws\<close>

lemma makeDoesMatch_empty: "makeDoesMatch stemmer html2plaintext [] isAccept lineObject = isAccept"
  by (simp add: makeDoesMatch_def)

lemma makeDoesMatch_catch:
  assumes "testString \<noteq> []"
    and "matchBody stemmer html2plaintext
           (map stemmer (split_on (\<lambda>c. c = CHR '' '') (toLowerCase testString)))
           isAccept lineObject = Inl err"
  shows "makeDoesMatch stemmer html2plaintext testString isAccept lineObject = True"
  using assms by (simp add: makeDoesMatch_def Let_def)

lemma matchBody_title_throws:
  assumes "post_Title lineObject = Some title" "title \<noteq> []" "html2plaintext title = Inl err"
  shows "matchBody stemmer html2plaintext testWords isAccept lineObject = Inl err"
  using assms by (simp add: matchBody_def plainWords_def titleOf_def or_empty_def Let_def)

text \<open>
  Claim C5 says that a matcher whose text processing throws treats the document as
  accepted, in the exclusion configuration too. The \<^verbatim>\<open>catch\<close> returns \<^verbatim>\<open>true\<close> whatever
  \<^verbatim>\<open>isAccept\<close> is: the exclusion matcher then reports a match, and the Posts pass
  removes the question from \<open>extendedQuestionIds\<close> and \<open>postIds\<close>. The empty-query
  path of the same function returns \<^verbatim>\<open>isAccept\<close>, which for the exclusion matcher
  rejects nothing.
\<close>

theorem exclusion_matcher_throw_rejects:
  "makeDoesMatch (\<lambda>w. w) a_html2plaintext ''spam'' False (a_question 1 ''<<'' ''faq'' ''body'') = True \<and>
   postHandler (makeDoesMatch (\<lambda>w. w) a_html2plaintext ''spam'' False)
      (a_question 1 ''<<'' ''faq'' ''body'') (initial_state [1])
     = \<lparr>questionIds = {1}, extendedQuestionIds = {}, postIds = {}, documentCount = 0\<rparr> \<and>
   makeDoesMatch (\<lambda>w. w) a_html2plaintext '''' False (a_question 1 ''<<'' ''faq'' ''body'') = False"
proof -
  have t: "post_Title (a_question 1 ''<<'' ''faq'' ''body'') = Some ''<<''"
    by (simp add: a_question_def)
  have h: "a_html2plaintext ''<<'' = Inl (Error ''parse error'')"
    by (simp add: a_html2plaintext_def)
  have m: "makeDoesMatch (\<lambda>w. w) a_html2plaintext ''spam'' False
             (a_question 1 ''<<'' ''faq'' ''body'') = True"
  proof (rule makeDoesMatch_catch)
    show "''spam'' \<noteq> []" by simp
    show "matchBody (\<lambda>w. w) a_html2plaintext
           (map (\<lambda>w. w) (split_on (\<lambda>c. c = CHR '' '') (toLowerCase ''spam'')))
           False (a_question 1 ''<<'' ''faq'' ''body'') = Inl (Error ''parse error'')"
      using t _ h by (rule matchBody_title_throws) simp
  qed
  have p: "postHandler (makeDoesMatch (\<lambda>w. w) a_html2plaintext ''spam'' False)
      (a_question 1 ''<<'' ''faq'' ''body'') (initial_state [1])
     = \<lparr>questionIds = {1}, extendedQuestionIds = {}, postIds = {}, documentCount = 0\<rparr>"
    unfolding postHandler_def m
    by (simp add: a_question_def initial_state_def POSTTYPEID_QUESTION_def POSTTYPEID_ANSWER_def)
  have e: "makeDoesMatch (\<lambda>w. w) a_html2plaintext '''' False
             (a_question 1 ''<<'' ''faq'' ''body'') = False"
    by (rule makeDoesMatch_empty)
  from m p e show ?thesis by blast
qed

section \<open>Write failures in the loaders\<close>

lemma indexFile_handler_console:
  "console (indexFile_handler putDocument render lineObject st) =
     console st @
       (case putDocument lineObject of
          Inr result \<Rightarrow> []
        | Inl err \<Rightarrow> if startsWith (message err) ''Invalid Id'' then []
                     else [''Failed to index row: '' @ render lineObject,
                           ''Error: '' @ error_toString err])"
  by (simp add: indexFile_handler_def split: sum.splits)

lemma indexFile_handler_stored:
  "stored (indexFile_handler putDocument render lineObject st) =
     stored st @ (case putDocument lineObject of Inr result \<Rightarrow> [lineObject] | Inl err \<Rightarrow> [])"
  by (simp add: indexFile_handler_def split: sum.splits)

lemma indexFile_stream:
  "console (readFile (indexFile_handler putDocument render) rows st) =
     console st @
       concat (map (\<lambda>lineObject.
                      case putDocument lineObject of
                        Inr result \<Rightarrow> []
                      | Inl err \<Rightarrow> if startsWith (message err) ''Invalid Id'' then []
                                   else [''Failed to index row: '' @ render lineObject,
                                         ''Error: '' @ error_toString err]) rows) \<and>
   stored (readFile (indexFile_handler putDocument render) rows st) =
     stored st @ filter (\<lambda>lineObject. \<exists>result. putDocument lineObject = Inr result) rows"
proof (induction rows arbitrary: st)
  case Nil
  show ?case by simp
next
  case (Cons r rows)
  show ?case
    by (cases "putDocument r")
       (simp_all add: Cons.IH indexFile_handler_console indexFile_handler_stored)
qed

text \<open>
  Claim C6 says that every per-record write failure of the loader is caught: skipped
  silently for an invalid id, logged with the row otherwise. The handler of
  \<^verbatim>\<open>indexFile\<close> does that. The handler of \<^verbatim>\<open>indexFromPostIds\<close> does not: a failing
  put, of either kind, rejects the handler's promise and prints nothing.
\<close>

theorem indexFromPostIds_write_failure_uncaught:
  "indexFromPostIds_handler sepost {5, - 1} None a_putDocument (a_row 5)
       \<lparr>loaded = 0, userIds = {}, loader_console = []\<rparr>
     = (\<lparr>loaded = 1, userIds = {9}, loader_console = []\<rparr>, Inl (Error ''mapper_parsing_exception'')) \<and>
   indexFromPostIds_handler sepost {5, - 1} None a_putDocument (a_row (- 1))
       \<lparr>loaded = 0, userIds = {}, loader_console = []\<rparr>
     = (\<lparr>loaded = 1, userIds = {9}, loader_console = []\<rparr>, Inl (Error ''Invalid Id: -1'')) \<and>
   indexFile_handler a_putDocument (\<lambda>r. ''row'') (a_row 5) \<lparr>console = [], stored = []\<rparr>
     = \<lparr>console = [''Failed to index row: row'', ''Error: Error: mapper_parsing_exception''],
        stored = []\<rparr> \<and>
   indexFile_handler a_putDocument (\<lambda>r. ''row'') (a_row (- 1)) \<lparr>console = [], stored = []\<rparr>
     = \<lparr>console = [], stored = []\<rparr>"
  by (simp add: indexFromPostIds_handler_def shouldIndex_def set_has_def set_add_def
      a_putDocument_def a_row_def indexFile_handler_def startsWith_def error_toString_def Let_def)

section \<open>Empty words in the query\<close>

lemma split_on_not_Nil: "split_on sep s \<noteq> []"
  by (induction s) (auto split: list.splits)

lemma split_on_keep:
  "\<not> sep c \<Longrightarrow> split_on sep (c # cs) = (c # hd (split_on sep cs)) # tl (split_on sep cs)"
  using split_on_not_Nil [of sep cs] by (cases "split_on sep cs") simp_all

lemma split_on_cut: "sep c \<Longrightarrow> split_on sep (c # cs) = [] # split_on sep cs"
  by simp

lemma empty_piece_both:
  "([] \<in> set (split_on sep s) \<longleftrightarrow>
      s = [] \<or> sep (hd s) \<or> sep (last s) \<or> adjacent_separators sep s) \<and>
   ([] \<in> set (tl (split_on sep s)) \<longleftrightarrow>
      s \<noteq> [] \<and> (sep (last s) \<or> adjacent_separators sep s))"
proof (induction s)
  case Nil
  show ?case by simp
next
  case (Cons c cs)
  show ?case
  proof (cases "sep c")
    case True
    then have sp: "split_on sep (c # cs) = [] # split_on sep cs"
      by (rule split_on_cut)
    show ?thesis
    proof (cases cs)
      case Nil
      with True show ?thesis by simp
    next
      case (Cons d ds)
      with True Cons.IH show ?thesis
        unfolding sp by auto
    qed
  next
    case False
    then have sp: "split_on sep (c # cs) = (c # hd (split_on sep cs)) # tl (split_on sep cs)"
      by (rule split_on_keep)
    show ?thesis
    proof (cases cs)
      case Nil
      with False show ?thesis by simp
    next
      case (Cons d ds)
      with False Cons.IH show ?thesis
        unfolding sp by auto
    qed
  qed
qed

lemma empty_piece_iff:
  "[] \<in> set (split_on sep s) \<longleftrightarrow> s = [] \<or> has_empty_piece sep s"
  using empty_piece_both [of sep s] by (auto simp add: has_empty_piece_def)

lemma adjacent_separators_map:
  "adjacent_separators sep (map f s) = adjacent_separators (\<lambda>c. sep (f c)) s"
  by (induction "\<lambda>c. sep (f c)" s rule: adjacent_separators.induct) simp_all

lemma has_empty_piece_map:
  "has_empty_piece sep (map f s) = has_empty_piece (\<lambda>c. sep (f c)) s"
  by (cases "s = []") (simp_all add: has_empty_piece_def adjacent_separators_map hd_map last_map)

lemma toLowerCase_char_space: "toLowerCase_char c = CHR '' '' \<longleftrightarrow> c = CHR '' ''"
proof
  assume "c = CHR '' ''"
  then show "toLowerCase_char c = CHR '' ''"
    by (simp add: toLowerCase_char_def)
next
  assume l: "toLowerCase_char c = CHR '' ''"
  define n where "n = (of_char c :: nat)"
  have d: "toLowerCase_char c =
      (if (65 \<le> n \<and> n \<le> 90) \<or> (192 \<le> n \<and> n \<le> 222 \<and> n \<noteq> 215)
       then char_of (n + 32) else c)"
    by (simp only: toLowerCase_char_def Let_def n_def)
  show "c = CHR '' ''"
  proof (cases "(65 \<le> n \<and> n \<le> 90) \<or> (192 \<le> n \<and> n \<le> 222 \<and> n \<noteq> 215)")
    case False
    then have "toLowerCase_char c = c"
      unfolding d by (rule if_not_P)
    with l show ?thesis by simp
  next
    case True
    then have "toLowerCase_char c = char_of (n + 32)"
      unfolding d by (rule if_P)
    with l have "char_of (n + 32) = CHR '' ''"
      by simp
    then have "(of_char (char_of (n + 32)) :: nat) = of_char CHR '' ''"
      by (rule arg_cong)
    then have m: "(n + 32) mod 256 = 32"
      by simp
    from True have "n + 32 < 256"
      by linarith
    then have "(n + 32) mod 256 = n + 32"
      by (rule mod_less)
    with m have "n = 0"
      by linarith
    with True have False
      by linarith
    then show ?thesis ..
  qed
qed

lemma query_has_empty_word:
  assumes "has_empty_piece (\<lambda>c. c = CHR '' '') testString" "stemmer [] = []"
  shows "[] \<in> set (map stemmer (split_on (\<lambda>c. c = CHR '' '') (toLowerCase testString)))"
proof -
  have "has_empty_piece (\<lambda>c. c = CHR '' '') (toLowerCase testString)"
    using assms(1) by (simp add: toLowerCase_def has_empty_piece_map toLowerCase_char_space)
  then have "[] \<in> set (split_on (\<lambda>c. c = CHR '' '') (toLowerCase testString))"
    by (simp add: empty_piece_iff)
  then have "stemmer [] \<in> stemmer ` set (split_on (\<lambda>c. c = CHR '' '') (toLowerCase testString))"
    by (rule imageI)
  then show ?thesis
    by (simp add: assms(2))
qed

lemma stemmedWords_has_empty:
  assumes "text = [] \<or> has_empty_piece is_punctuation (toLowerCase text)" "stemmer [] = []"
  shows "[] \<in> stemmedWords stemmer text"
proof -
  have "toLowerCase text = [] \<or> has_empty_piece is_punctuation (toLowerCase text)"
    using assms(1) by (auto simp add: toLowerCase_def)
  then have "[] \<in> set (split_on is_punctuation (toLowerCase text))"
    by (simp add: empty_piece_iff)
  then have "stemmer [] \<in> stemmer ` set (split_on is_punctuation (toLowerCase text))"
    by (rule imageI)
  then show ?thesis
    by (simp add: stemmedWords_def Let_def assms(2))
qed

lemma matchBody_shape:
  assumes "matchBody stemmer html2plaintext testWords isAccept lineObject = Inr aHit"
  shows "\<exists>titleWords bodyWords.
           plainWords stemmer html2plaintext (titleOf isAccept lineObject) = Inr titleWords \<and>
           aHit = list_ex (\<lambda>word. has_word titleWords word \<or>
                                    has_word (tagWordsOf stemmer lineObject) word \<or>
                                    has_word bodyWords word) testWords"
proof (cases "plainWords stemmer html2plaintext (titleOf isAccept lineObject)")
  case (Inl err)
  with assms show ?thesis by (simp add: matchBody_def)
next
  case titleWords: (Inr titleWords)
  show ?thesis
  proof (cases "if isAccept then Inr None
                else plainWords stemmer html2plaintext (or_empty (post_Body lineObject))")
    case (Inl err)
    with assms titleWords show ?thesis by (simp add: matchBody_def)
  next
    case (Inr bodyWords)
    with assms titleWords have
      "aHit = list_ex (\<lambda>word. has_word titleWords word \<or>
                                has_word (tagWordsOf stemmer lineObject) word \<or>
                                has_word bodyWords word) testWords"
      by (simp add: matchBody_def)
    with titleWords show ?thesis by blast
  qed
qed

lemma matchBody_tags_hit:
  assumes "word \<in> set testWords" "post_Tags lineObject = Some tags" "tags \<noteq> []"
    "word \<in> stemmedWords stemmer tags"
    "matchBody stemmer html2plaintext testWords isAccept lineObject = Inr aHit"
  shows "aHit"
proof -
  have "tagWordsOf stemmer lineObject = Some (stemmedWords stemmer tags)"
    using assms(2) assms(3) by (simp add: tagWordsOf_def or_empty_def)
  then have "has_word (tagWordsOf stemmer lineObject) word"
    using assms(4) by (simp add: has_word_def)
  with assms(1) matchBody_shape [OF assms(5)] show ?thesis
    by (auto simp add: list_ex_iff)
qed

lemma matchBody_title_hit:
  assumes "word \<in> set testWords" "post_Title lineObject = Some title" "title \<noteq> []"
    "html2plaintext title = Inr plain" "word \<in> stemmedWords stemmer plain"
    "matchBody stemmer html2plaintext testWords isAccept lineObject = Inr aHit"
  shows "aHit"
proof -
  have "titleOf isAccept lineObject = title"
    using assms(2) assms(3) by (simp add: titleOf_def or_empty_def Let_def)
  then have "plainWords stemmer html2plaintext (titleOf isAccept lineObject) =
      Inr (Some (stemmedWords stemmer plain))"
    using assms(3) assms(4) by (simp add: plainWords_def)
  with matchBody_shape [OF assms(6)] obtain bodyWords where
    "aHit = list_ex (\<lambda>word. has_word (Some (stemmedWords stemmer plain)) word \<or>
                              has_word (tagWordsOf stemmer lineObject) word \<or>
                              has_word bodyWords word) testWords"
    by auto
  with assms(1) assms(5) show ?thesis
    by (auto simp add: list_ex_iff has_word_def)
qed

lemma makeDoesMatch_unfold:
  "testString \<noteq> [] \<Longrightarrow>
   makeDoesMatch stemmer html2plaintext testString isAccept lineObject =
     (case matchBody stemmer html2plaintext
             (map stemmer (split_on (\<lambda>c. c = CHR '' '') (toLowerCase testString)))
             isAccept lineObject of
        Inl err \<Rightarrow> True
      | Inr aHit \<Rightarrow> aHit)"
  by (simp add: makeDoesMatch_def Let_def)

lemma sw1: "stemmedWords (\<lambda>w. w) ''a b'' = {''a'', ''b''}"
  by (simp add: stemmedWords_def toLowerCase_def toLowerCase_char_def is_punctuation_def
      is_word_char_def Let_def)

lemma sw2: "stemmedWords (\<lambda>w. w) ''c d'' = {''c'', ''d''}"
  by (simp add: stemmedWords_def toLowerCase_def toLowerCase_char_def is_punctuation_def
      is_word_char_def Let_def)

lemma sw3: "stemmedWords (\<lambda>w. w) ''e'' = {''e''}"
  by (simp add: stemmedWords_def toLowerCase_def toLowerCase_char_def is_punctuation_def
      is_word_char_def Let_def)

lemma qw: "map (\<lambda>w. w) (split_on (\<lambda>c. c = CHR '' '') (toLowerCase ''x  y'')) = [''x'', '''', ''y'']"
  by (simp add: toLowerCase_def toLowerCase_char_def Let_def)

text \<open>
  Claim C10 says that a query with two spaces in a row matches every document whose
  Title or Tags holds a character outside \<^verbatim>\<open>[a-z0-9-]\<close>. It does not: the query
  \<^verbatim>\<open>'x  y'\<close> has the empty word, the title \<^verbatim>\<open>'a b'\<close> and the tags \<^verbatim>\<open>'c d'\<close> each hold a
  space, yet neither word set holds the empty word (a single separator between two
  words cuts no empty piece), and neither the inclusion nor the exclusion matcher
  matches the document.
\<close>

theorem punctuation_alone_counterexample:
  "''x  y'' \<noteq> [] \<and> has_empty_piece (\<lambda>c. c = CHR '' '') ''x  y'' \<and>
   [] \<in> set (map (\<lambda>w. w) (split_on (\<lambda>c. c = CHR '' '') (toLowerCase ''x  y''))) \<and>
   (\<exists>c\<in>set (toLowerCase ''a b''). is_punctuation c) \<and>
   (\<exists>c\<in>set (toLowerCase ''c d''). is_punctuation c) \<and>
   [] \<notin> stemmedWords (\<lambda>w. w) ''a b'' \<and>
   [] \<notin> stemmedWords (\<lambda>w. w) ''c d'' \<and>
   \<not> makeDoesMatch (\<lambda>w. w) Inr ''x  y'' True (a_question 1 ''a b'' ''c d'' ''e'') \<and>
   \<not> makeDoesMatch (\<lambda>w. w) Inr ''x  y'' False (a_question 1 ''a b'' ''c d'' ''e'')"
proof -
  have g: "has_empty_piece (\<lambda>c. c = CHR '' '') ''x  y''"
    by (simp add: has_empty_piece_def)
  have p1: "\<exists>c\<in>set (toLowerCase ''a b''). is_punctuation c"
    by (simp add: toLowerCase_def toLowerCase_char_def is_punctuation_def is_word_char_def Let_def)
  have p2: "\<exists>c\<in>set (toLowerCase ''c d''). is_punctuation c"
    by (simp add: toLowerCase_def toLowerCase_char_def is_punctuation_def is_word_char_def Let_def)
  have m1: "\<not> makeDoesMatch (\<lambda>w. w) Inr ''x  y'' True (a_question 1 ''a b'' ''c d'' ''e'')"
    by (simp add: makeDoesMatch_def Let_def qw [simplified] matchBody_def plainWords_def
        titleOf_def tagWordsOf_def or_empty_def has_word_def a_question_def sw1 sw2 sw3)
  have m2: "\<not> makeDoesMatch (\<lambda>w. w) Inr ''x  y'' False (a_question 1 ''a b'' ''c d'' ''e'')"
    by (simp add: makeDoesMatch_def Let_def qw [simplified] matchBody_def plainWords_def
        titleOf_def tagWordsOf_def or_empty_def has_word_def a_question_def sw1 sw2 sw3)
  show ?thesis
    using g p1 p2 m1 m2 by (simp add: qw [simplified] sw1 sw2)
qed

text \<open>
  Claim C10, as the code has it. When the query starts or ends with a space or has two
  spaces in a row, and the stemmer leaves the empty word as it is, the query word list
  holds the empty word. The word set of a text holds the empty word when the text is
  empty or its lower-cased form starts or ends with a character outside
  \<^verbatim>\<open>[a-z0-9-]\<close> or has two such characters in a row. Such a matcher, for inclusion or
  for exclusion, returns true for every document whose Tags have that form, and for
  every document whose non-empty Title has it once stripped of HTML.
\<close>

theorem empty_query_word_matches:
  assumes "has_empty_piece (\<lambda>c. c = CHR '' '') testString" and "stemmer [] = []"
  shows "[] \<in> set (map stemmer (split_on (\<lambda>c. c = CHR '' '') (toLowerCase testString))) \<and>
    (content = [] \<or> has_empty_piece is_punctuation (toLowerCase content) \<longrightarrow>
       [] \<in> stemmedWords stemmer content) \<and>
    (post_Tags lineObject = Some tags \<and> has_empty_piece is_punctuation (toLowerCase tags) \<longrightarrow>
       makeDoesMatch stemmer html2plaintext testString isAccept lineObject) \<and>
    (post_Title lineObject = Some title \<and> title \<noteq> [] \<and> html2plaintext title = Inr plain \<and>
     (plain = [] \<or> has_empty_piece is_punctuation (toLowerCase plain)) \<longrightarrow>
       makeDoesMatch stemmer html2plaintext testString isAccept lineObject)"
proof (intro conjI impI)
  let ?testWords = "map stemmer (split_on (\<lambda>c. c = CHR '' '') (toLowerCase testString))"
  have ne: "testString \<noteq> []"
    using assms(1) by (simp add: has_empty_piece_def)
  show q: "[] \<in> set ?testWords"
    using assms by (rule query_has_empty_word)
  show "[] \<in> stemmedWords stemmer content"
    if "content = [] \<or> has_empty_piece is_punctuation (toLowerCase content)"
    using that assms(2) by (rule stemmedWords_has_empty)
  show "makeDoesMatch stemmer html2plaintext testString isAccept lineObject"
    if h: "post_Tags lineObject = Some tags \<and> has_empty_piece is_punctuation (toLowerCase tags)"
  proof (cases "matchBody stemmer html2plaintext ?testWords isAccept lineObject")
    case (Inl err)
    then show ?thesis by (simp add: makeDoesMatch_unfold [OF ne])
  next
    case (Inr aHit)
    from h have t: "tags \<noteq> []"
      by (auto simp add: has_empty_piece_def toLowerCase_def)
    from h have w: "[] \<in> stemmedWords stemmer tags"
      using assms(2) by (intro stemmedWords_has_empty) simp_all
    from h have p: "post_Tags lineObject = Some tags" by simp
    have aHit
      using q p t w Inr by (rule matchBody_tags_hit)
    with Inr show ?thesis by (simp add: makeDoesMatch_unfold [OF ne])
  qed
  show "makeDoesMatch stemmer html2plaintext testString isAccept lineObject"
    if h: "post_Title lineObject = Some title \<and> title \<noteq> [] \<and> html2plaintext title = Inr plain \<and>
     (plain = [] \<or> has_empty_piece is_punctuation (toLowerCase plain))"
  proof (cases "matchBody stemmer html2plaintext ?testWords isAccept lineObject")
    case (Inl err)
    then show ?thesis by (simp add: makeDoesMatch_unfold [OF ne])
  next
    case (Inr aHit)
    from h have w: "[] \<in> stemmedWords stemmer plain"
      using assms(2) by (intro stemmedWords_has_empty) simp_all
    from h have p: "post_Title lineObject = Some title" and t: "title \<noteq> []"
      and hp: "html2plaintext title = Inr plain" by simp_all
    have aHit
      using q p t hp w Inr by (rule matchBody_title_hit)
    with Inr show ?thesis by (simp add: makeDoesMatch_unfold [OF ne])
  qed
qed

theorem empty_query_word_matches_witness:
  "has_empty_piece (\<lambda>c. c = CHR '' '') ''x  y'' \<and>
   has_empty_piece is_punctuation (toLowerCase ''<faq>'') \<and>
   has_empty_piece is_punctuation (toLowerCase ''why?'') \<and>
   [] \<in> set (map (\<lambda>w. w) (split_on (\<lambda>c. c = CHR '' '') (toLowerCase ''x  y''))) \<and>
   [] \<in> stemmedWords (\<lambda>w. w) ''why?'' \<and>
   makeDoesMatch (\<lambda>w. w) Inr ''x  y'' False (a_question 1 ''a b'' ''<faq>'' ''e'') \<and>
   makeDoesMatch (\<lambda>w. w) Inr ''x  y'' True (a_question 1 ''why?'' ''c d'' ''e'')"
proof -
  have g: "has_empty_piece (\<lambda>c. c = CHR '' '') ''x  y''"
    by (simp add: has_empty_piece_def)
  have t: "has_empty_piece is_punctuation (toLowerCase ''<faq>'')"
    by (simp add: has_empty_piece_def toLowerCase_def toLowerCase_char_def is_punctuation_def
        is_word_char_def Let_def)
  have u: "has_empty_piece is_punctuation (toLowerCase ''why?'')"
    by (simp add: has_empty_piece_def toLowerCase_def toLowerCase_char_def is_punctuation_def
        is_word_char_def Let_def)
  have a: "[] \<in> set (map (\<lambda>w. w) (split_on (\<lambda>c. c = CHR '' '') (toLowerCase ''x  y''))) \<and>
      [] \<in> stemmedWords (\<lambda>w. w) ''why?'' \<and>
      makeDoesMatch (\<lambda>w. w) Inr ''x  y'' False (a_question 1 ''a b'' ''<faq>'' ''e'')"
    using g t u empty_query_word_matches [where testString = "''x  y''"
        and stemmer = "\<lambda>w. w" and content = "''why?''"
        and lineObject = "a_question 1 ''a b'' ''<faq>'' ''e''" and tags = "''<faq>''"
        and ?html2plaintext = Inr and isAccept = False]
    by (simp add: a_question_def)
  have b: "makeDoesMatch (\<lambda>w. w) Inr ''x  y'' True (a_question 1 ''why?'' ''c d'' ''e'')"
    using g u empty_query_word_matches [where testString = "''x  y''"
        and stemmer = "\<lambda>w. w" and lineObject = "a_question 1 ''why?'' ''c d'' ''e''" and title = "''why?''"
        and plain = "''why?''" and ?html2plaintext = Inr and isAccept = True]
    by (simp add: a_question_def)
  from g t u a b show ?thesis by blast
qed

end
